theory Spec2Isabelle
  imports Main "HOL-Library.Word" "HOL-Library.Stream"
begin

text \<open>
  A model of the component \<open>App\<close> of \<open>App.tsx\<close>, a voice chat client: the transcript
  accumulator (\<open>updateMessage\<close> and the handler \<open>onmessage\<close>), the session life cycle
  (\<open>connect\<close>, \<open>disconnect\<close> and the callbacks of the session) and the export of the
  transcript. The component is a state record, each handler a function from state to
  state. What the browser, the SDK, the clock and the random generator answer is an
  argument of the function or, for the ids to come, a stream held in the state. An
  asynchronous function is run up to the point where it settles or hangs; the server
  messages that arrive while \<open>disconnect\<close> is suspended are part of what it is given.
  Rendering, audio frames and the visualizer are left out.
\<close>

section \<open>JavaScript strings\<close>

text \<open>
  A JavaScript string is a sequence of UTF-16 code units. \<open>trim\<close> and truthiness are
  defined on code units, so the model keeps them: a string is a list of 16-bit words.
  \<open>lit\<close> turns an ASCII literal of the source into such a list.
\<close>

type_synonym js_string = "16 word list"

definition lit :: "string \<Rightarrow> js_string" where
  "lit cs = map (\<lambda>c. of_nat (of_char c)) cs"

text \<open>A string is truthy when it is not empty; \<open>null\<close> and \<open>undefined\<close> are falsy.\<close>

definition truthy :: "js_string \<Rightarrow> bool" where
  "truthy t \<longleftrightarrow> t \<noteq> []"

definition truthy_opt :: "js_string option \<Rightarrow> bool" where
  "truthy_opt v = (case v of None \<Rightarrow> False | Some t \<Rightarrow> truthy t)"

text \<open>
  \<open>String.prototype.trim\<close> strips the code units of WhiteSpace and LineTerminator
  from both ends: TAB, LF, VT, FF, CR, SP, NBSP, U+1680, U+2000 to U+200A, LS, PS,
  U+202F, U+205F, U+3000 and the byte order mark U+FEFF.
\<close>

definition isWhiteSpace :: "16 word \<Rightarrow> bool" where
  "isWhiteSpace c \<longleftrightarrow>
     c = 0x9 \<or> c = 0xA \<or> c = 0xB \<or> c = 0xC \<or> c = 0xD \<or> c = 0x20 \<or> c = 0xA0 \<or>
     c = 0x1680 \<or> (0x2000 \<le> c \<and> c \<le> 0x200A) \<or> c = 0x2028 \<or> c = 0x2029 \<or>
     c = 0x202F \<or> c = 0x205F \<or> c = 0x3000 \<or> c = 0xFEFF"

definition trim :: "js_string \<Rightarrow> js_string" where
  "trim t = rev (dropWhile isWhiteSpace (rev (dropWhile isWhiteSpace t)))"

text \<open>
  \<open>Number.prototype.toString\<close> on an integer (\<open>Date.now()\<close> is an integer number of
  milliseconds, far below 1e21): the decimal digits, after a minus sign if negative.
\<close>

definition digit :: "nat \<Rightarrow> 16 word" where
  "digit d = of_nat (48 + d)"

function decimal :: "nat \<Rightarrow> js_string" where
  "decimal n = (if n < 10 then [digit n] else decimal (n div 10) @ [digit (n mod 10)])"
  by pat_completeness auto
termination
  by (relation "measure (\<lambda>n. n)") auto

definition toString :: "int \<Rightarrow> js_string" where
  "toString i = (if i < 0 then 0x2D # decimal (nat (- i)) else decimal (nat i))"

text \<open>
  \<open>Array.prototype.join\<close>: the result starts as the first element (the empty string for
  an empty array) and each further element is appended after the separator.
\<close>

fun joinFrom :: "js_string \<Rightarrow> js_string \<Rightarrow> js_string list \<Rightarrow> js_string" where
  "joinFrom sep R [] = R"
| "joinFrom sep R (x # xs) = joinFrom sep (R @ sep @ x) xs"

definition join :: "js_string \<Rightarrow> js_string list \<Rightarrow> js_string" where
  "join sep xs = (case xs of [] \<Rightarrow> [] | x # rest \<Rightarrow> joinFrom sep x rest)"

text \<open>\<open>Array.prototype.findIndex\<close>: the first index whose element satisfies the
  predicate; \<open>None\<close> stands for the result \<open>-1\<close>.\<close>

fun findIndex :: "('a \<Rightarrow> bool) \<Rightarrow> 'a list \<Rightarrow> nat option" where
  "findIndex P [] = None"
| "findIndex P (x # xs) = (if P x then Some 0 else map_option Suc (findIndex P xs))"


section \<open>Data model of App.tsx\<close>

datatype role = User | Model

text \<open>The interface \<open>Message\<close>. The fields \<open>id\<close> and \<open>text\<close> carry a suffix, since
  both names are taken in Isabelle.\<close>

record message =
  id_m :: js_string
  role :: role
  text_m :: js_string
  isPartial :: bool

text \<open>The object held by \<open>activeMessageIds\<close>, indexed by role in the source.\<close>

record active_ids =
  user :: "js_string option"
  model :: "js_string option"

definition getActive :: "role \<Rightarrow> active_ids \<Rightarrow> js_string option" where
  "getActive r a = (case r of User \<Rightarrow> user a | Model \<Rightarrow> model a)"

definition setActive :: "role \<Rightarrow> js_string option \<Rightarrow> active_ids \<Rightarrow> active_ids" where
  "setActive r v a = (case r of User \<Rightarrow> a\<lparr>user := v\<rparr> | Model \<Rightarrow> a\<lparr>model := v\<rparr>)"

text \<open>
  The parts of a \<open>LiveServerMessage\<close> that \<open>onmessage\<close> reads. A transcription has an
  optional text; the two flags are false when absent.
\<close>

datatype transcription = Transcription (text_t: "js_string option")

record server_content =
  inputTranscription :: "transcription option"
  outputTranscription :: "transcription option"
  turnComplete :: bool
  interrupted :: bool

record LiveServerMessage =
  serverContent :: "server_content option"

text \<open>An \<open>AudioContext\<close> is known by its state; an audio node by whether it is still
  connected to the graph.\<close>

datatype context_state = Running | Suspended | Closed

text \<open>
  The state of the component: the three React state variables, the refs, the
  microphone stream captured by the callbacks of \<open>connect\<close>, and the values that
  \<open>Date.now()\<close> and \<open>Math.random().toString(36).substring(2, 9)\<close> will return at the
  coming id generations (\<open>entropy\<close>, one pair for each generation).
\<close>

record app_state =
  isConnected :: bool
  messages :: "message list"
  error :: "js_string option"
  aiRef :: "js_string option"
  sessionRef :: bool
  inputContextRef :: "context_state option"
  sourceNodeRef :: "bool option"
  processorNodeRef :: "bool option"
  inputAnalyserRef :: bool
  micStream :: bool
  currentInputTextRef :: js_string
  currentOutputTextRef :: js_string
  activeMessageIds :: active_ids
  entropy :: "(int \<times> js_string) stream"

definition initial :: "(int \<times> js_string) stream \<Rightarrow> app_state" where
  "initial w = \<lparr>isConnected = False, messages = [], error = None, aiRef = None,
     sessionRef = False, inputContextRef = None, sourceNodeRef = None,
     processorNodeRef = None, inputAnalyserRef = False, micStream = False,
     currentInputTextRef = [], currentOutputTextRef = [],
     activeMessageIds = \<lparr>user = None, model = None\<rparr>, entropy = w\<rparr>"

text \<open>The accumulation buffer of a role: \<open>currentInputTextRef\<close> for the user,
  \<open>currentOutputTextRef\<close> for the model.\<close>

definition buffer :: "role \<Rightarrow> app_state \<Rightarrow> js_string" where
  "buffer r s = (case r of User \<Rightarrow> currentInputTextRef s | Model \<Rightarrow> currentOutputTextRef s)"

definition setBuffer :: "role \<Rightarrow> js_string \<Rightarrow> app_state \<Rightarrow> app_state" where
  "setBuffer r t s =
     (case r of User \<Rightarrow> s\<lparr>currentInputTextRef := t\<rparr> | Model \<Rightarrow> s\<lparr>currentOutputTextRef := t\<rparr>)"


section \<open>updateMessage\<close>

text \<open>The id built on line 80 from the clock and the random suffix.\<close>

definition generateId :: "int \<times> js_string \<Rightarrow> js_string" where
  "generateId e = toString (fst e) @ snd e"

text \<open>The updater passed to \<open>setMessages\<close> (lines 86 to 107).\<close>

definition applyUpdate :: "js_string \<Rightarrow> role \<Rightarrow> js_string \<Rightarrow> bool \<Rightarrow> message list \<Rightarrow> message list" where
  "applyUpdate targetId r t isFinal prev =
     (case findIndex (\<lambda>m. id_m m = targetId) prev of
        Some msgIndex \<Rightarrow>
          prev[msgIndex := (prev ! msgIndex)\<lparr>text_m := t, isPartial := \<not> isFinal\<rparr>]
      | None \<Rightarrow>
          prev @ [\<lparr>id_m = targetId, role = r, text_m = t, isPartial = \<not> isFinal\<rparr>])"

text \<open>
  \<open>updateMessage\<close> (lines 74 to 113). A new id is generated when the role has no
  truthy active id and the text is not blank; without a truthy target id the function
  returns before touching the messages; a final update resets the role's active id.
\<close>

definition updateMessage :: "role \<Rightarrow> js_string \<Rightarrow> bool \<Rightarrow> app_state \<Rightarrow> app_state" where
  "updateMessage r t isFinal s =
     (let generate = (\<not> truthy_opt (getActive r (activeMessageIds s)) \<and> truthy (trim t));
          newId = generateId (shd (entropy s));
          targetId = (if generate then Some newId else getActive r (activeMessageIds s));
          s1 = (if generate
                then s\<lparr>activeMessageIds := setActive r (Some newId) (activeMessageIds s),
                       entropy := stl (entropy s)\<rparr>
                else s)
      in if \<not> truthy_opt targetId then s1
         else
           let s2 = s1\<lparr>messages := applyUpdate (the targetId) r t isFinal (messages s1)\<rparr>
           in if isFinal
              then s2\<lparr>activeMessageIds := setActive r None (activeMessageIds s2)\<rparr>
              else s2)"


section \<open>onmessage\<close>

text \<open>Lines 200 to 206 for the user and 208 to 214 for the model: a truthy fragment
  is appended to the role's buffer and the whole buffer is shown as a partial message.\<close>

definition onTranscription :: "role \<Rightarrow> transcription \<Rightarrow> app_state \<Rightarrow> app_state" where
  "onTranscription r tr s =
     (case text_t tr of
        None \<Rightarrow> s
      | Some t \<Rightarrow>
          if truthy t
          then let s1 = setBuffer r (buffer r s @ t) s in updateMessage r (buffer r s1) False s1
          else s)"

text \<open>Lines 218 to 221 for the user and 222 to 225 for the model.\<close>

definition onTurnComplete :: "role \<Rightarrow> app_state \<Rightarrow> app_state" where
  "onTurnComplete r s =
     (if truthy (buffer r s)
      then setBuffer r [] (updateMessage r (buffer r s) True s)
      else s)"

text \<open>Lines 233 to 236: the interruption marker is a space and three full stops.\<close>

definition onInterrupted :: "app_state \<Rightarrow> app_state" where
  "onInterrupted s =
     (if truthy (currentOutputTextRef s)
      then (updateMessage Model (currentOutputTextRef s @ lit '' ...'') True s)
             \<lparr>currentOutputTextRef := []\<rparr>
      else s)"

text \<open>The handler (lines 198 to 238) runs the four blocks in the order of the source.\<close>

definition onmessage :: "LiveServerMessage \<Rightarrow> app_state \<Rightarrow> app_state" where
  "onmessage msg s =
     (case serverContent msg of
        None \<Rightarrow> s
      | Some sc \<Rightarrow>
          let s1 = (case inputTranscription sc of None \<Rightarrow> s | Some tr \<Rightarrow> onTranscription User tr s);
              s2 = (case outputTranscription sc of None \<Rightarrow> s1 | Some tr \<Rightarrow> onTranscription Model tr s1);
              s3 = (if turnComplete sc then onTurnComplete Model (onTurnComplete User s2) else s2);
              s4 = (if interrupted sc then onInterrupted s3 else s3)
          in s4)"


section \<open>Session life cycle\<close>

text \<open>The effect run once when the component is mounted (lines 66 to 72);
  \<open>key\<close> is \<open>process.env.API_KEY\<close>.\<close>

definition initAI :: "js_string option \<Rightarrow> app_state \<Rightarrow> app_state" where
  "initAI key s =
     (if truthy_opt key then s\<lparr>aiRef := key\<rparr>
      else s\<lparr>error := Some (lit ''API Key is missing.'')\<rparr>)"

text \<open>
  What the browser and the SDK answer. A call returns or raises, an awaited promise
  resolves, rejects or never settles; an exception is known by its \<open>message\<close>, which
  may be undefined. While \<open>disconnect\<close> is suspended at an \<open>await\<close> the session can
  still deliver messages: \<open>duringContextClose\<close> and \<open>duringSessionAwait\<close> are the messages
  that \<open>onmessage\<close> handles in the meantime, in their order of arrival.
\<close>

datatype call_result = Returns | Raises "js_string option"

datatype await_result = Resolves | Rejects "js_string option" | Never

datatype completion = Fulfilled | Rejected "js_string option" | Pending

record teardown_env =
  contextClose :: await_result
  duringContextClose :: "LiveServerMessage list"
  sessionAwait :: await_result
  duringSessionAwait :: "LiveServerMessage list"
  sessionClose :: call_result

text \<open>Lines 279 to 282, the last synchronous stretch of \<open>disconnect\<close>.\<close>

definition resetBuffers :: "app_state \<Rightarrow> app_state" where
  "resetBuffers s = s\<lparr>currentInputTextRef := [], currentOutputTextRef := [],
     activeMessageIds := \<lparr>user = None, model = None\<rparr>\<rparr>"

text \<open>Lines 268 to 282, what \<open>disconnect\<close> does once the audio context is dealt with.
  A rejected session promise or a throwing \<open>session.close()\<close> rejects \<open>disconnect\<close>
  on the spot: nothing catches them.\<close>

definition disconnectRest :: "teardown_env \<Rightarrow> app_state \<Rightarrow> completion \<times> app_state" where
  "disconnectRest env s =
     (let s1 = s\<lparr>sourceNodeRef := map_option (\<lambda>_. False) (sourceNodeRef s),
                   processorNodeRef := map_option (\<lambda>_. False) (processorNodeRef s)\<rparr>
      in if sessionRef s1
         then (case sessionAwait env of
                 Never \<Rightarrow> (Pending, s1)
               | Rejects e \<Rightarrow> (Rejected e, fold onmessage (duringSessionAwait env) s1)
               | Resolves \<Rightarrow>
                   (case sessionClose env of
                      Raises e \<Rightarrow> (Rejected e, fold onmessage (duringSessionAwait env) s1)
                    | Returns \<Rightarrow>
                        (Fulfilled,
                         resetBuffers ((fold onmessage (duringSessionAwait env) s1)\<lparr>sessionRef := False\<rparr>))))
         else (Fulfilled, resetBuffers s1))"

text \<open>\<open>disconnect\<close> (lines 260 to 283). A failing \<open>close()\<close> of the audio context is
  caught and logged; the ref keeps the context.\<close>

definition disconnect :: "teardown_env \<Rightarrow> app_state \<Rightarrow> completion \<times> app_state" where
  "disconnect env s =
     (let s0 = s\<lparr>isConnected := False\<rparr>
      in case inputContextRef s0 of
           None \<Rightarrow> disconnectRest env s0
         | Some c \<Rightarrow>
             (case contextClose env of
                Never \<Rightarrow> (Pending, s0)
              | Rejects e \<Rightarrow> disconnectRest env (fold onmessage (duringContextClose env) s0)
              | Resolves \<Rightarrow>
                  disconnectRest env
                    (fold onmessage (duringContextClose env) (s0\<lparr>inputContextRef := Some Closed\<rparr>))))"

record connect_env =
  newContext :: call_result
  contextSuspended :: bool
  resume :: await_result
  getUserMedia :: await_result
  liveConnect :: call_result
  teardown :: teardown_env

text \<open>The \<open>catch\<close> of \<open>connect\<close> (lines 253 to 257); the state returned is the one
  the \<open>disconnect\<close> it starts ends in.\<close>

definition connectFailed :: "connect_env \<Rightarrow> js_string option \<Rightarrow> app_state \<Rightarrow> app_state" where
  "connectFailed env e s = snd (disconnect (teardown env) (s\<lparr>error := e\<rparr>))"

text \<open>Lines 148 to 251: analyser, microphone, session.\<close>

definition connectRest :: "connect_env \<Rightarrow> app_state \<Rightarrow> app_state" where
  "connectRest env s =
     (let s1 = s\<lparr>inputAnalyserRef := True\<rparr>
      in case getUserMedia env of
           Never \<Rightarrow> s1
         | Rejects e \<Rightarrow> connectFailed env e s1
         | Resolves \<Rightarrow>
             (let s2 = s1\<lparr>micStream := True\<rparr>
              in case liveConnect env of
                   Raises e \<Rightarrow> connectFailed env e s2
                 | Returns \<Rightarrow> s2\<lparr>sessionRef := True\<rparr>))"

text \<open>\<open>connect\<close> (lines 134 to 258): without a client it returns at once.\<close>

definition connect :: "connect_env \<Rightarrow> app_state \<Rightarrow> app_state" where
  "connect env s =
     (if aiRef s = None then s
      else
        let s0 = s\<lparr>error := None\<rparr>
        in case newContext env of
             Raises e \<Rightarrow> connectFailed env e s0
           | Returns \<Rightarrow>
               if contextSuspended env
               then (case resume env of
                       Never \<Rightarrow> s0\<lparr>inputContextRef := Some Suspended\<rparr>
                     | Rejects e \<Rightarrow> connectFailed env e (s0\<lparr>inputContextRef := Some Suspended\<rparr>)
                     | Resolves \<Rightarrow> connectRest env (s0\<lparr>inputContextRef := Some Running\<rparr>))
               else connectRest env (s0\<lparr>inputContextRef := Some Running\<rparr>))"

text \<open>The callbacks \<open>onopen\<close> (lines 173 to 197), \<open>onclose\<close> (239 to 242) and
  \<open>onerror\<close> (243 to 247).\<close>

definition onopen :: "app_state \<Rightarrow> app_state" where
  "onopen s =
     (let s1 = s\<lparr>isConnected := True\<rparr>
      in if inputContextRef s1 = None then s1
         else s1\<lparr>sourceNodeRef := Some True, processorNodeRef := Some True\<rparr>)"

definition onclose :: "app_state \<Rightarrow> app_state" where
  "onclose s = s\<lparr>isConnected := False\<rparr>"

definition onerror :: "js_string option \<Rightarrow> teardown_env \<Rightarrow> app_state \<Rightarrow> app_state" where
  "onerror message env s =
     snd (disconnect env
       (s\<lparr>error := Some (if truthy_opt message then the message
                            else lit ''Connection error. Please try again.'')\<rparr>))"


section \<open>downloadTranscript\<close>

record download =
  content :: js_string
  filename :: js_string

text \<open>The template literal of line 120.\<close>

definition formatMessage :: "message \<Rightarrow> js_string" where
  "formatMessage msg =
     lit ''['' @ (if role msg = User then lit ''User'' else lit ''AI'') @ lit '']: '' @ text_m msg"

text \<open>\<open>downloadTranscript\<close> (lines 115 to 132): \<open>None\<close> is the early return, otherwise
  the file handed to the browser; \<open>isoTime\<close> is \<open>new Date().toISOString()\<close>. The separator is
  two line feeds, and the colons of the time become hyphens.\<close>

definition downloadTranscript :: "js_string \<Rightarrow> message list \<Rightarrow> download option" where
  "downloadTranscript isoTime msgs =
     (if length msgs = 0 then None
      else Some \<lparr>content = join [0xA, 0xA] (map formatMessage msgs),
                 filename = lit ''transcript_''
                   @ map (\<lambda>c. if c = 0x3A then 0x2D else c) (take 19 isoTime) @ lit ''.txt''\<rparr>)"


section \<open>The component as a transition system\<close>

datatype event =
    InitAI "js_string option"
  | Connect connect_env
  | OnOpen
  | OnMessage LiveServerMessage
  | OnClose
  | OnError "js_string option" teardown_env
  | Disconnect teardown_env
  | DownloadTranscript js_string

fun step :: "event \<Rightarrow> app_state \<Rightarrow> app_state" where
  "step (InitAI key) s = initAI key s"
| "step (Connect env) s = connect env s"
| "step OnOpen s = onopen s"
| "step (OnMessage msg) s = onmessage msg s"
| "step OnClose s = onclose s"
| "step (OnError message env) s = onerror message env s"
| "step (Disconnect env) s = snd (disconnect env s)"
| "step (DownloadTranscript isoTime) s = s"

definition run :: "event list \<Rightarrow> app_state \<Rightarrow> app_state" where
  "run es s = fold step es s"


section \<open>Notions used by the properties\<close>

text \<open>Server messages that carry one thing only: a transcription for one role, the
  turn-complete signal, the interruption signal.\<close>

definition transcriptionMsg :: "role \<Rightarrow> js_string option \<Rightarrow> LiveServerMessage" where
  "transcriptionMsg r t = \<lparr>serverContent = Some
     \<lparr>inputTranscription = (if r = User then Some (Transcription t) else None),
      outputTranscription = (if r = Model then Some (Transcription t) else None),
      turnComplete = False, interrupted = False\<rparr>\<rparr>"

definition turnCompleteMsg :: LiveServerMessage where
  "turnCompleteMsg = \<lparr>serverContent = Some
     \<lparr>inputTranscription = None, outputTranscription = None,
      turnComplete = True, interrupted = False\<rparr>\<rparr>"

definition interruptedMsg :: LiveServerMessage where
  "interruptedMsg = \<lparr>serverContent = Some
     \<lparr>inputTranscription = None, outputTranscription = None,
      turnComplete = False, interrupted = True\<rparr>\<rparr>"

text \<open>The fragments of one role, delivered one message each, in order.\<close>

definition deliver :: "role \<Rightarrow> js_string list \<Rightarrow> app_state \<Rightarrow> app_state" where
  "deliver r frags s = fold onmessage (map (\<lambda>f. transcriptionMsg r (Some f)) frags) s"

text \<open>A blank string has no code unit other than white space.\<close>

definition blank :: "js_string \<Rightarrow> bool" where
  "blank t = list_all isWhiteSpace t"

text \<open>The role's tracker holds a truthy id, and the first message with that id is
  the message at index \<open>k\<close>, a message of that role.\<close>

definition tracks :: "role \<Rightarrow> app_state \<Rightarrow> nat \<Rightarrow> bool" where
  "tracks r s k =
     (case getActive r (activeMessageIds s) of
        None \<Rightarrow> False
      | Some i \<Rightarrow> truthy i \<and> findIndex (\<lambda>m. id_m m = i) (messages s) = Some k
                 \<and> role (messages s ! k) = r)"

text \<open>The export as the specification words it: one block for each message, the text
  after \<open>[User]: \<close> or \<open>[AI]: \<close>, and a blank line between two blocks.\<close>

definition transcriptBlock :: "message \<Rightarrow> js_string" where
  "transcriptBlock msg =
     (case role msg of User \<Rightarrow> lit ''[User]: '' | Model \<Rightarrow> lit ''[AI]: '') @ text_m msg"

fun separated :: "js_string list \<Rightarrow> js_string" where
  "separated [] = []"
| "separated [b] = b"
| "separated (b # b' # bs) = b @ [0xA, 0xA] @ separated (b' # bs)"

text \<open>Identity of a message: what must never change.\<close>

definition identity :: "message \<Rightarrow> js_string \<times> role" where
  "identity msg = (id_m msg, role msg)"

text \<open>The new list keeps every message of the old one at its place, with its id and
  its role.\<close>

definition keeps :: "message list \<Rightarrow> message list \<Rightarrow> bool" where
  "keeps old new \<longleftrightarrow>
     length old \<le> length new \<and> map identity (take (length old) new) = map identity old"


section \<open>Well-formed states\<close>

text \<open>
  What holds of the trackers in every state the component can reach, as long as the
  clock and the random suffix never produce the same id twice (\<open>distinctIds\<close>). A role
  is consistent when either it has no tracked message and its buffer is blank, or its
  tracker holds a truthy id, the first message with that id is a message of the role, in
  progress, and its text is the role's buffer. \<open>wellTracked\<close> is the part of it that does
  not mention the buffer; \<open>freshIds\<close> says that the ids to come are new and distinct.
\<close>

definition consistent :: "role \<Rightarrow> app_state \<Rightarrow> bool" where
  "consistent r s =
     (case getActive r (activeMessageIds s) of
        None \<Rightarrow> blank (buffer r s)
      | Some i \<Rightarrow>
          truthy i \<and>
          (case findIndex (\<lambda>m. id_m m = i) (messages s) of
             None \<Rightarrow> False
           | Some k \<Rightarrow> role (messages s ! k) = r \<and> text_m (messages s ! k) = buffer r s
                        \<and> isPartial (messages s ! k)))"

definition freshIds :: "app_state \<Rightarrow> bool" where
  "freshIds s \<longleftrightarrow>
     (\<forall>n. generateId (entropy s !! n) \<notin> id_m ` set (messages s)) \<and>
     (\<forall>m n. m \<noteq> n \<longrightarrow> generateId (entropy s !! m) \<noteq> generateId (entropy s !! n))"

definition sound :: "app_state \<Rightarrow> bool" where
  "sound s \<longleftrightarrow> consistent User s \<and> consistent Model s \<and> freshIds s"

definition wellTracked :: "role \<Rightarrow> app_state \<Rightarrow> bool" where
  "wellTracked r s \<longleftrightarrow>
     (case getActive r (activeMessageIds s) of
        None \<Rightarrow> True
      | Some i \<Rightarrow> truthy i \<and>
          (case findIndex (\<lambda>m. id_m m = i) (messages s) of
             None \<Rightarrow> False | Some k \<Rightarrow> role (messages s ! k) = r))"

definition distinctIds :: "(int \<times> js_string) stream \<Rightarrow> bool" where
  "distinctIds w \<longleftrightarrow> (\<forall>m n. m \<noteq> n \<longrightarrow> generateId (w !! m) \<noteq> generateId (w !! n))"


section \<open>A sample run\<close>

text \<open>A clock that starts at 42 and a random suffix \<open>x\<close>: the ids are \<open>42x\<close>, \<open>43x\<close>
  and so on. A teardown and a connection where every call succeeds, and the session they
  lead to once the user has said \<open>hel\<close>.\<close>

definition exampleWorld :: "(int \<times> js_string) stream" where
  "exampleWorld = smap (\<lambda>n. (int n, lit ''x'')) (fromN 42)"

definition okTeardown :: teardown_env where
  "okTeardown = \<lparr>contextClose = Resolves, duringContextClose = [],
     sessionAwait = Resolves, duringSessionAwait = [], sessionClose = Returns\<rparr>"

definition okConnect :: connect_env where
  "okConnect = \<lparr>newContext = Returns, contextSuspended = False, resume = Resolves,
     getUserMedia = Resolves, liveConnect = Returns, teardown = okTeardown\<rparr>"

definition exampleEvents :: "event list" where
  "exampleEvents = [InitAI (Some (lit ''key'')), Connect okConnect, OnOpen,
     OnMessage (transcriptionMsg User (Some (lit ''hel'')))]"

definition exampleSession :: app_state where
  "exampleSession = run exampleEvents (initial exampleWorld)"

text \<open>A teardown during which the model still says \<open>lo\<close>.\<close>

definition busyTeardown :: teardown_env where
  "busyTeardown = \<lparr>contextClose = Rejects None, duringContextClose = [],
     sessionAwait = Resolves,
     duringSessionAwait = [transcriptionMsg Model (Some (lit ''lo''))],
     sessionClose = Returns\<rparr>"

text \<open>The same session once the model has begun its reply \<open>yes\<close>.\<close>

definition exampleReply :: app_state where
  "exampleReply = onmessage (transcriptionMsg Model (Some (lit ''yes''))) exampleSession"

definition exampleMessages :: "message list" where
  "exampleMessages =
     [\<lparr>id_m = lit ''42x'', role = User, text_m = lit ''hi'', isPartial = False\<rparr>,
      \<lparr>id_m = lit ''43x'', role = Model, text_m = lit ''yo'', isPartial = True\<rparr>]"


section \<open>Strings and lists\<close>

lemma dropWhile_all_iff: "(\<forall>x\<in>set (dropWhile P xs). P x) \<longleftrightarrow> (\<forall>x\<in>set xs. P x)"
  by (induction xs) auto

lemma trim_Nil_iff: "trim t = [] \<longleftrightarrow> blank t"
  unfolding trim_def blank_def by (simp add: dropWhile_eq_Nil_conv dropWhile_all_iff list_all_iff)

lemma truthy_trim_iff: "truthy (trim t) \<longleftrightarrow> \<not> blank t"
  by (simp add: truthy_def trim_Nil_iff)

lemma decimal_nonempty: "decimal n \<noteq> []"
  by (subst decimal.simps) simp

lemma truthy_generateId: "truthy (generateId e)"
  by (simp add: truthy_def generateId_def toString_def decimal_nonempty)

lemma joinFrom_concat: "joinFrom sep R xs = R @ concat (map (\<lambda>x. sep @ x) xs)"
  by (induction xs arbitrary: R) simp_all

lemma separated_concat:
  "separated (b # bs) = b @ concat (map (\<lambda>x. [0xA, 0xA] @ x) bs)"
  by (induction bs arbitrary: b) simp_all

lemma join_separated: "join [0xA, 0xA] bs = separated bs"
  by (cases bs) (simp_all add: join_def joinFrom_concat separated_concat)

lemma findIndex_Some: "findIndex P xs = Some k \<Longrightarrow> k < length xs \<and> P (xs ! k)"
  by (induction xs arbitrary: k) (auto split: if_splits)

lemma findIndex_None_iff: "findIndex P xs = None \<longleftrightarrow> (\<forall>x\<in>set xs. \<not> P x)"
  by (induction xs) auto

lemma getActive_setActive: "getActive r (setActive r' v a) = (if r = r' then v else getActive r a)"
  by (cases r; cases r') (simp_all add: getActive_def setActive_def)

lemma buffer_setBuffer: "buffer r (setBuffer r' t s) = (if r = r' then t else buffer r s)"
  by (cases r; cases r') (simp_all add: buffer_def setBuffer_def)

lemma messages_setBuffer: "messages (setBuffer r b s) = messages s"
  by (cases r) (simp_all add: setBuffer_def)


section \<open>The sample run, evaluated\<close>

lemma shd_exampleWorld: "shd exampleWorld = (42, lit ''x'')"
  by (simp add: exampleWorld_def)

lemma exampleSession_eq:
  "exampleSession = \<lparr>isConnected = True,
     messages = [\<lparr>id_m = lit ''42x'', role = User, text_m = lit ''hel'', isPartial = True\<rparr>],
     error = None, aiRef = Some (lit ''key''), sessionRef = True,
     inputContextRef = Some Running, sourceNodeRef = Some True, processorNodeRef = Some True,
     inputAnalyserRef = True, micStream = True, currentInputTextRef = lit ''hel'',
     currentOutputTextRef = [], activeMessageIds = \<lparr>user = Some (lit ''42x''), model = None\<rparr>,
     entropy = stl exampleWorld\<rparr>"
  by (simp add: exampleSession_def exampleEvents_def run_def initial_def initAI_def
      truthy_opt_def truthy_def
      connect_def connectRest_def okConnect_def onopen_def Let_def
      onmessage_def transcriptionMsg_def onTranscription_def setBuffer_def buffer_def
      updateMessage_def getActive_def setActive_def trim_def isWhiteSpace_def lit_def
      applyUpdate_def shd_exampleWorld generateId_def toString_def digit_def)


section \<open>The handler on messages that carry one thing\<close>

lemma onTranscription_falsy:
  "\<not> truthy_opt t \<Longrightarrow> onTranscription r (Transcription t) s = s"
  by (cases t) (simp_all add: onTranscription_def truthy_opt_def)

lemma onmessage_transcriptionMsg:
  "onmessage (transcriptionMsg r t) s = onTranscription r (Transcription t) s"
  by (cases r) (simp_all add: onmessage_def transcriptionMsg_def)

lemma onmessage_turnCompleteMsg:
  "onmessage turnCompleteMsg s = onTurnComplete Model (onTurnComplete User s)"
  by (simp add: onmessage_def turnCompleteMsg_def)

lemma onmessage_interruptedMsg:
  "onmessage interruptedMsg s = onInterrupted s"
  by (simp add: onmessage_def interruptedMsg_def)

text \<open>
  Claim C7. A transcription event whose fragment text is empty (or absent) changes
  nothing: the block that handles it returns the state as it was, buffers, trackers and
  messages included, and so does the handler on a message that carries only that event.
\<close>

theorem empty_fragment_ignored:
  "onTranscription r (Transcription (Some [])) s = s \<and>
   onTranscription r (Transcription None) s = s \<and>
   onmessage (transcriptionMsg r (Some [])) s = s \<and>
   onmessage (transcriptionMsg r None) s = s"
  by (simp add: onmessage_transcriptionMsg onTranscription_falsy truthy_opt_def truthy_def)

text \<open>
  Claim C6. At a turn-complete signal, the branch of a role whose buffer is empty does
  nothing: the state, and with it the list of messages, is unchanged.
\<close>

theorem turn_complete_empty_buffer:
  "buffer r s = [] \<Longrightarrow> onTurnComplete r s = s \<and> messages (onTurnComplete r s) = messages s"
  by (simp add: onTurnComplete_def truthy_def)

theorem turn_complete_empty_buffer_witness:
  "buffer Model exampleSession = [] \<and>
   onTurnComplete Model exampleSession = exampleSession \<and>
   messages (onTurnComplete Model exampleSession) = messages exampleSession"
proof -
  have "buffer Model exampleSession = []"
    by (simp add: buffer_def exampleSession_eq)
  then show ?thesis
    using turn_complete_empty_buffer [of Model exampleSession] by simp
qed


section \<open>disconnect\<close>

lemma resetBuffers_clear:
  "currentInputTextRef (resetBuffers s) = [] \<and> currentOutputTextRef (resetBuffers s) = [] \<and>
   activeMessageIds (resetBuffers s) = \<lparr>user = None, model = None\<rparr>"
  by (simp add: resetBuffers_def)

lemma disconnectRest_clear:
  "fst (disconnectRest env s) = Fulfilled \<Longrightarrow>
   currentInputTextRef (snd (disconnectRest env s)) = [] \<and>
   currentOutputTextRef (snd (disconnectRest env s)) = [] \<and>
   activeMessageIds (snd (disconnectRest env s)) = \<lparr>user = None, model = None\<rparr>"
  by (auto simp: disconnectRest_def Let_def resetBuffers_clear
      split: if_splits await_result.splits call_result.splits)

lemma disconnectRest_completes:
  "sessionAwait env = Resolves \<Longrightarrow> sessionClose env = Returns \<Longrightarrow>
   fst (disconnectRest env s) = Fulfilled"
  by (simp add: disconnectRest_def Let_def)

lemma disconnect_completes:
  "contextClose env \<noteq> Never \<Longrightarrow> sessionAwait env = Resolves \<Longrightarrow> sessionClose env = Returns \<Longrightarrow>
   fst (disconnect env s) = Fulfilled"
  by (auto simp: disconnect_def Let_def disconnectRest_completes
      split: option.splits await_result.splits)

lemma disconnect_clear:
  assumes "fst (disconnect env s) = Fulfilled"
  shows "currentInputTextRef (snd (disconnect env s)) = [] \<and>
      currentOutputTextRef (snd (disconnect env s)) = [] \<and>
      activeMessageIds (snd (disconnect env s)) = \<lparr>user = None, model = None\<rparr>"
proof -
  from assms obtain s' where "disconnect env s = disconnectRest env s'"
    "fst (disconnectRest env s') = Fulfilled"
    by (auto simp: disconnect_def Let_def split: option.splits await_result.splits)
  then show ?thesis
    using disconnectRest_clear [of env s'] by simp
qed

text \<open>
  Claim C1. From every state, whatever the error recorded in it and whatever messages
  arrive while it is suspended, a \<open>disconnect\<close> that runs to completion leaves both
  buffers empty and both trackers at none. It does run to completion whenever closing
  the audio context settles, the session promise resolves and \<open>session.close()\<close>
  returns.
\<close>

theorem disconnect_clears:
  "(contextClose env \<noteq> Never \<and> sessionAwait env = Resolves \<and> sessionClose env = Returns
      \<longrightarrow> fst (disconnect env s) = Fulfilled) \<and>
   (fst (disconnect env s) = Fulfilled \<longrightarrow>
      currentInputTextRef (snd (disconnect env s)) = [] \<and>
      currentOutputTextRef (snd (disconnect env s)) = [] \<and>
      activeMessageIds (snd (disconnect env s)) = \<lparr>user = None, model = None\<rparr>)"
  using disconnect_completes [of env s] disconnect_clear [of env s] by blast

theorem disconnect_clears_witness:
  "currentInputTextRef (exampleSession\<lparr>error := Some (lit ''socket'')\<rparr>) = lit ''hel'' \<and>
   user (activeMessageIds (exampleSession\<lparr>error := Some (lit ''socket'')\<rparr>)) = Some (lit ''42x'') \<and>
   contextClose busyTeardown \<noteq> Never \<and> sessionAwait busyTeardown = Resolves \<and>
   sessionClose busyTeardown = Returns \<and>
   fst (disconnect busyTeardown (exampleSession\<lparr>error := Some (lit ''socket'')\<rparr>)) = Fulfilled \<and>
   currentInputTextRef (snd (disconnect busyTeardown (exampleSession\<lparr>error := Some (lit ''socket'')\<rparr>))) = [] \<and>
   currentOutputTextRef (snd (disconnect busyTeardown (exampleSession\<lparr>error := Some (lit ''socket'')\<rparr>))) = [] \<and>
   activeMessageIds (snd (disconnect busyTeardown (exampleSession\<lparr>error := Some (lit ''socket'')\<rparr>)))
     = \<lparr>user = None, model = None\<rparr>"
proof -
  have env: "contextClose busyTeardown \<noteq> Never \<and> sessionAwait busyTeardown = Resolves \<and>
      sessionClose busyTeardown = Returns"
    by (simp add: busyTeardown_def)
  have st: "currentInputTextRef (exampleSession\<lparr>error := Some (lit ''socket'')\<rparr>) = lit ''hel'' \<and>
      user (activeMessageIds (exampleSession\<lparr>error := Some (lit ''socket'')\<rparr>)) = Some (lit ''42x'')"
    by (simp add: exampleSession_eq)
  show ?thesis
    using env st disconnect_clears [of busyTeardown "exampleSession\<lparr>error := Some (lit ''socket'')\<rparr>"]
    by blast
qed


section \<open>The missing credential\<close>

lemma connect_without_client: "aiRef s = None \<Longrightarrow> connect env s = s"
  by (simp add: connect_def)

lemma fold_connect_without_client: "aiRef s = None \<Longrightarrow> fold connect envs s = s"
  by (induction envs) (simp_all add: connect_without_client)

lemma initAI_missing:
  "\<not> truthy_opt key \<Longrightarrow>
   initAI key s = s\<lparr>error := Some (lit ''API Key is missing.'')\<rparr>"
  by (simp add: initAI_def)

lemma aiRef_initial: "aiRef ((initial w)\<lparr>error := e\<rparr>) = None"
  by (simp add: initial_def)

lemma resources_initial:
  "sessionRef ((initial w)\<lparr>error := e\<rparr>) = False \<and>
   inputContextRef ((initial w)\<lparr>error := e\<rparr>) = None \<and>
   micStream ((initial w)\<lparr>error := e\<rparr>) = False"
  by (simp add: initial_def)

text \<open>
  Claim C8. When the credential is absent (or empty) at startup, the effect that runs
  once at mount sets the error to \<open>API Key is missing.\<close> and nothing else; from then on
  every call of \<open>connect\<close>, however often repeated, returns the state as it found it:
  the error set once stays as it is, no session is opened, no audio context created and
  no microphone stream acquired.
\<close>

theorem missing_credential_blocks_connect:
  assumes "\<not> truthy_opt key"
  shows "initAI key (initial w) = (initial w)\<lparr>error := Some (lit ''API Key is missing.'')\<rparr> \<and>
   (\<forall>envs. fold connect envs (initAI key (initial w)) = initAI key (initial w)) \<and>
   sessionRef (connect env (initAI key (initial w))) = False \<and>
   inputContextRef (connect env (initAI key (initial w))) = None \<and>
   micStream (connect env (initAI key (initial w))) = False"
proof -
  let ?s = "(initial w)\<lparr>error := Some (lit ''API Key is missing.'')\<rparr>"
  have eq: "initAI key (initial w) = ?s"
    using assms by (rule initAI_missing)
  have none: "aiRef ?s = None"
    by (rule aiRef_initial)
  have c: "connect env ?s = ?s"
    using none by (rule connect_without_client)
  have f: "fold connect envs ?s = ?s" for envs
    using none by (rule fold_connect_without_client)
  show ?thesis
    unfolding eq c using f resources_initial [where w = w] by blast
qed

theorem missing_credential_blocks_connect_witness:
  "\<not> truthy_opt None \<and>
   error (initAI None (initial exampleWorld)) = Some (lit ''API Key is missing.'') \<and>
   fold connect [okConnect, okConnect] (initAI None (initial exampleWorld))
     = initAI None (initial exampleWorld) \<and>
   sessionRef (connect okConnect (initAI None (initial exampleWorld))) = False \<and>
   inputContextRef (connect okConnect (initAI None (initial exampleWorld))) = None \<and>
   micStream (connect okConnect (initAI None (initial exampleWorld))) = False"
proof -
  have k: "\<not> truthy_opt None"
    by (simp add: truthy_opt_def)
  have "error ((initial exampleWorld)\<lparr>error := Some (lit ''API Key is missing.'')\<rparr>)
      = Some (lit ''API Key is missing.'')"
    by simp
  then show ?thesis
    using k missing_credential_blocks_connect [OF k, of exampleWorld okConnect] by metis
qed


section \<open>downloadTranscript\<close>

lemma formatMessage_block: "formatMessage msg = transcriptBlock msg"
  by (cases "role msg") (simp_all add: formatMessage_def transcriptBlock_def lit_def)

text \<open>
  Claim C4. With no message the export returns at once. With N messages the exported
  text is N blocks in the order of the list, each the text of its message after
  \<open>[User]: \<close> or \<open>[AI]: \<close>, with one blank line (two line feeds) between consecutive
  blocks.
\<close>

theorem export_blocks:
  "downloadTranscript isoTime [] = None \<and>
   (msgs \<noteq> [] \<longrightarrow>
      map_option content (downloadTranscript isoTime msgs)
        = Some (separated (map transcriptBlock msgs))) \<and>
   length (map transcriptBlock msgs) = length msgs \<and>
   (\<forall>i<length msgs. map transcriptBlock msgs ! i = transcriptBlock (msgs ! i))"
proof -
  have "formatMessage = transcriptBlock"
    by (rule ext) (rule formatMessage_block)
  then show ?thesis
    by (simp add: downloadTranscript_def join_separated)
qed

theorem export_blocks_witness:
  "exampleMessages \<noteq> [] \<and> (1::nat) < length exampleMessages \<and>
   map_option content (downloadTranscript (lit ''2026-01-02T03:04:05.678Z'') exampleMessages)
     = Some (lit ''[User]: hi'' @ [0xA, 0xA] @ lit ''[AI]: yo'') \<and>
   map transcriptBlock exampleMessages ! 1 = lit ''[AI]: yo''"
proof -
  have ne: "exampleMessages \<noteq> []" and len: "(1::nat) < length exampleMessages"
    by (simp_all add: exampleMessages_def)
  have sep: "separated (map transcriptBlock exampleMessages)
      = lit ''[User]: hi'' @ [0xA, 0xA] @ lit ''[AI]: yo''"
    by (simp add: exampleMessages_def transcriptBlock_def lit_def)
  have blk: "transcriptBlock (exampleMessages ! 1) = lit ''[AI]: yo''"
    by (simp add: exampleMessages_def transcriptBlock_def lit_def)
  show ?thesis
    using ne len sep blk
      export_blocks [of "lit ''2026-01-02T03:04:05.678Z''" exampleMessages]
    by simp
qed


section \<open>Messages are never deleted\<close>

lemma applyUpdate_absent:
  "findIndex (\<lambda>m. id_m m = i) prev = None \<Longrightarrow>
   applyUpdate i r t f prev = prev @ [\<lparr>id_m = i, role = r, text_m = t, isPartial = \<not> f\<rparr>]"
  by (simp add: applyUpdate_def)

lemma applyUpdate_present:
  "findIndex (\<lambda>m. id_m m = i) prev = Some k \<Longrightarrow>
   applyUpdate i r t f prev = prev[k := (prev ! k)\<lparr>text_m := t, isPartial := \<not> f\<rparr>]"
  by (simp add: applyUpdate_def)

lemma applyUpdate_cases:
  "(\<exists>m. applyUpdate i r t f prev = prev @ [m])
   \<or> (\<exists>k < length prev. applyUpdate i r t f prev = prev[k := (prev ! k)\<lparr>text_m := t, isPartial := \<not> f\<rparr>])"
proof (cases "findIndex (\<lambda>m. id_m m = i) prev")
  case None
  then show ?thesis by (simp add: applyUpdate_absent)
next
  case (Some k)
  then have "k < length prev" by (auto dest: findIndex_Some)
  with Some show ?thesis by (auto simp: applyUpdate_present)
qed

lemma messages_updateMessage:
  "messages (updateMessage r t f s) = messages s \<or>
   messages (updateMessage r t f s) = applyUpdate (the (getActive r (activeMessageIds s))) r t f (messages s) \<or>
   messages (updateMessage r t f s) = applyUpdate (generateId (shd (entropy s))) r t f (messages s)"
  by (simp add: updateMessage_def Let_def)

lemma updateMessage_cases:
  "messages (updateMessage r t f s) = messages s \<or>
   (\<exists>m. messages (updateMessage r t f s) = messages s @ [m]) \<or>
   (\<exists>k < length (messages s). messages (updateMessage r t f s)
       = (messages s)[k := (messages s ! k)\<lparr>text_m := t, isPartial := \<not> f\<rparr>])"
  using messages_updateMessage [of r t f s]
    applyUpdate_cases [of "the (getActive r (activeMessageIds s))" r t f "messages s"]
    applyUpdate_cases [of "generateId (shd (entropy s))" r t f "messages s"]
  by metis

lemma keeps_refl: "keeps xs xs"
  by (simp add: keeps_def)

lemma keeps_trans: "keeps xs ys \<Longrightarrow> keeps ys zs \<Longrightarrow> keeps xs zs"
proof -
  assume a: "keeps xs ys" and b: "keeps ys zs"
  have "take (length xs) (map identity zs) = take (length xs) (take (length ys) (map identity zs))"
    using a by (simp add: keeps_def min_def)
  also have "\<dots> = take (length xs) (map identity ys)"
    using b by (simp add: keeps_def take_map)
  finally show ?thesis using a b by (simp add: keeps_def take_map)
qed

lemma keeps_append: "keeps xs (xs @ ys)"
  by (simp add: keeps_def)

lemma keeps_rewrite: "keeps xs (xs[k := (xs ! k)\<lparr>text_m := t, isPartial := p\<rparr>])"
proof (cases "k < length xs")
  case True
  then show ?thesis
    by (simp add: keeps_def map_update identity_def list_update_same_conv)
next
  case False
  then have "xs[k := (xs ! k)\<lparr>text_m := t, isPartial := p\<rparr>] = xs"
    by (intro list_update_beyond) simp
  then show ?thesis
    by (simp add: keeps_def)
qed

lemma keeps_updateMessage: "keeps (messages s) (messages (updateMessage r t f s))"
  using updateMessage_cases [of r t f s]
  by (auto simp: keeps_refl keeps_append keeps_rewrite)

lemma keeps_onTranscription: "keeps (messages s) (messages (onTranscription r tr s))"
proof -
  have m: "messages (setBuffer r b s) = messages s" for b
    by (cases r) (simp_all add: setBuffer_def)
  show ?thesis
    using keeps_updateMessage [of "setBuffer r (buffer r s @ the (text_t tr)) s" r]
    by (auto simp: onTranscription_def Let_def keeps_refl m split: option.splits)
qed

lemma keeps_onTurnComplete: "keeps (messages s) (messages (onTurnComplete r s))"
  by (simp add: onTurnComplete_def keeps_refl messages_setBuffer keeps_updateMessage)

lemma keeps_onInterrupted: "keeps (messages s) (messages (onInterrupted s))"
  by (simp add: onInterrupted_def keeps_refl keeps_updateMessage)

lemma keeps_onmessage: "keeps (messages s) (messages (onmessage msg s))"
proof (cases "serverContent msg")
  case None
  then show ?thesis by (simp add: onmessage_def keeps_refl)
next
  case (Some sc)
  define s1 where "s1 = (case inputTranscription sc of None \<Rightarrow> s | Some tr \<Rightarrow> onTranscription User tr s)"
  define s2 where "s2 = (case outputTranscription sc of None \<Rightarrow> s1 | Some tr \<Rightarrow> onTranscription Model tr s1)"
  define s3 where "s3 = (if turnComplete sc then onTurnComplete Model (onTurnComplete User s2) else s2)"
  define s4 where "s4 = (if interrupted sc then onInterrupted s3 else s3)"
  have 1: "keeps (messages s) (messages s1)"
    by (simp add: s1_def keeps_refl keeps_onTranscription split: option.splits)
  have 2: "keeps (messages s1) (messages s2)"
    by (simp add: s2_def keeps_refl keeps_onTranscription split: option.splits)
  have 3: "keeps (messages s2) (messages s3)"
    using keeps_trans [OF keeps_onTurnComplete keeps_onTurnComplete]
    by (simp add: s3_def keeps_refl)
  have 4: "keeps (messages s3) (messages s4)"
    by (simp add: s4_def keeps_refl keeps_onInterrupted)
  have "onmessage msg s = s4"
    unfolding s4_def s3_def s2_def s1_def onmessage_def Let_def using Some by simp
  then show ?thesis
    using keeps_trans [OF keeps_trans [OF keeps_trans [OF 1 2] 3] 4] by simp
qed

lemma keeps_fold_onmessage: "keeps (messages s) (messages (fold onmessage msgs s))"
proof (induction msgs arbitrary: s)
  case Nil
  then show ?case by (simp add: keeps_refl)
next
  case (Cons m msgs)
  show ?case
    using keeps_trans [OF keeps_onmessage Cons.IH] by simp
qed

lemma keeps_disconnectRest: "keeps (messages s) (messages (snd (disconnectRest env s)))"
  using keeps_fold_onmessage [of "s\<lparr>sourceNodeRef := map_option (\<lambda>_. False) (sourceNodeRef s),
                   processorNodeRef := map_option (\<lambda>_. False) (processorNodeRef s)\<rparr>" "duringSessionAwait env"]
  by (simp add: disconnectRest_def Let_def resetBuffers_def keeps_refl
      split: await_result.splits call_result.splits)

lemma keeps_disconnect: "keeps (messages s) (messages (snd (disconnect env s)))"
proof -
  have a: "keeps (messages s) (messages (snd (disconnectRest env (fold onmessage ms (s\<lparr>isConnected := False\<rparr>)))))" for ms
    using keeps_trans [OF keeps_fold_onmessage [of "s\<lparr>isConnected := False\<rparr>" ms]
        keeps_disconnectRest [of _ env]]
    by simp
  have b: "keeps (messages s) (messages (snd (disconnectRest env
      (fold onmessage ms (s\<lparr>isConnected := False, inputContextRef := Some Closed\<rparr>)))))" for ms
    using keeps_trans [OF keeps_fold_onmessage
        [of "s\<lparr>isConnected := False, inputContextRef := Some Closed\<rparr>" ms]
        keeps_disconnectRest [of _ env]]
    by simp
  have c: "keeps (messages s) (messages (snd (disconnectRest env (s\<lparr>isConnected := False\<rparr>))))"
    using a [of "[]"] by simp
  show ?thesis
    by (simp add: disconnect_def Let_def a b c keeps_refl split: option.splits await_result.splits)
qed

lemma keeps_connectFailed: "keeps (messages s) (messages (connectFailed env e s))"
  using keeps_disconnect [of "s\<lparr>error := e\<rparr>" "teardown env"]
  by (simp add: connectFailed_def)

lemma keeps_connectRest: "keeps (messages s) (messages (connectRest env s))"
proof -
  have a: "keeps (messages s) (messages (connectFailed env e (s\<lparr>inputAnalyserRef := True\<rparr>)))" for e
    using keeps_connectFailed [of "s\<lparr>inputAnalyserRef := True\<rparr>" env e] by simp
  have b: "keeps (messages s) (messages (connectFailed env e (s\<lparr>inputAnalyserRef := True, micStream := True\<rparr>)))" for e
    using keeps_connectFailed [of "s\<lparr>inputAnalyserRef := True, micStream := True\<rparr>" env e] by simp
  show ?thesis
    by (simp add: connectRest_def Let_def a b keeps_refl split: await_result.splits call_result.splits)
qed

lemma keeps_connect: "keeps (messages s) (messages (connect env s))"
proof -
  have a: "keeps (messages s) (messages (connectFailed env e (s\<lparr>error := None\<rparr>)))" for e
    using keeps_connectFailed [of "s\<lparr>error := None\<rparr>" env e] by simp
  have b: "keeps (messages s) (messages (connectFailed env e (s\<lparr>error := None, inputContextRef := c\<rparr>)))" for e c
    using keeps_connectFailed [of "s\<lparr>error := None, inputContextRef := c\<rparr>" env e] by simp
  have c: "keeps (messages s) (messages (connectRest env (s\<lparr>error := None, inputContextRef := c\<rparr>)))" for c
    using keeps_connectRest [of "s\<lparr>error := None, inputContextRef := c\<rparr>" env] by simp
  show ?thesis
    by (simp add: connect_def Let_def a b c keeps_refl split: await_result.splits call_result.splits)
qed

lemma keeps_step: "keeps (messages s) (messages (step e s))"
proof (cases e)
  case (OnError message env)
  then show ?thesis
    using keeps_disconnect [of "s\<lparr>error := Some (if truthy_opt message then the message
                            else lit ''Connection error. Please try again.'')\<rparr>" env]
    by (simp add: onerror_def)
qed (simp_all add: keeps_refl keeps_connect keeps_onmessage keeps_disconnect initAI_def onopen_def onclose_def Let_def)

lemma keeps_run: "keeps (messages s) (messages (run es s))"
proof (induction es arbitrary: s)
  case Nil
  then show ?case by (simp add: run_def keeps_refl)
next
  case (Cons e es)
  show ?case
    using keeps_trans [OF keeps_step Cons.IH [unfolded run_def]] by (simp add: run_def)
qed

lemma disconnect_own_messages:
  "messages (snd (disconnect (env\<lparr>duringContextClose := [], duringSessionAwait := []\<rparr>) s)) = messages s"
  by (simp add: disconnect_def disconnectRest_def resetBuffers_def Let_def
      split: option.splits await_result.splits call_result.splits)

text \<open>
  Claim C9. No operation deletes a message or changes the id or the role of one. A call
  of \<open>updateMessage\<close> leaves the list as it is, appends one message at the end, or
  rewrites the text and the partial flag of one message. Every event, and so every run
  of events, keeps each message of the list at its place with its id and its role. The
  code of \<open>disconnect\<close> itself leaves the list untouched.
\<close>

theorem messages_never_deleted:
  "(messages (updateMessage r t f s) = messages s \<or>
    (\<exists>m. messages (updateMessage r t f s) = messages s @ [m]) \<or>
    (\<exists>k < length (messages s). messages (updateMessage r t f s)
       = (messages s)[k := (messages s ! k)\<lparr>text_m := t, isPartial := \<not> f\<rparr>])) \<and>
   keeps (messages s) (messages (step e s)) \<and>
   keeps (messages s) (messages (run es s)) \<and>
   messages (snd (disconnect (env\<lparr>duringContextClose := [], duringSessionAwait := []\<rparr>) s)) = messages s"
  using updateMessage_cases [of r t f s] keeps_step [of s e] keeps_run [of s es]
    disconnect_own_messages [of env s]
  by blast


section \<open>Fragments, turn completion and interruption\<close>

lemma findIndex_map: "findIndex (\<lambda>m. f m = i) xs = findIndex (\<lambda>x. x = i) (map f xs)"
  by (induction xs) simp_all

lemma map_id_update: "id_m m = id_m (xs ! k) \<Longrightarrow> map id_m (xs[k := m]) = map id_m xs"
proof (cases "k < length xs")
  case True
  assume "id_m m = id_m (xs ! k)"
  with True show ?thesis
    by (simp add: map_update list_update_same_conv)
next
  case False
  then show ?thesis
    by (simp add: list_update_beyond)
qed

lemma map_id_rewrite:
  "map id_m (xs[k := (xs ! k)\<lparr>text_m := t, isPartial := p\<rparr>]) = map id_m xs"
  by (rule map_id_update) simp

lemma findIndex_rewrite:
  "findIndex (\<lambda>m. id_m m = i) (xs[k := (xs ! k)\<lparr>text_m := t, isPartial := p\<rparr>])
     = findIndex (\<lambda>m. id_m m = i) xs"
  by (simp add: findIndex_map [of id_m] map_id_rewrite)

lemma findIndex_append_absent:
  "findIndex P xs = None \<Longrightarrow> findIndex P (xs @ [x]) = (if P x then Some (length xs) else None)"
  by (induction xs) (auto split: if_splits)

lemma updateMessage_tracked:
  assumes "getActive r (activeMessageIds s) = Some i" "truthy i"
    "findIndex (\<lambda>m. id_m m = i) (messages s) = Some k"
  shows "messages (updateMessage r t f s) = (messages s)[k := (messages s ! k)\<lparr>text_m := t, isPartial := \<not> f\<rparr>]"
    and "activeMessageIds (updateMessage r t f s)
           = (if f then setActive r None (activeMessageIds s) else activeMessageIds s)"
    and "entropy (updateMessage r t f s) = entropy s"
    and "currentInputTextRef (updateMessage r t f s) = currentInputTextRef s"
    and "currentOutputTextRef (updateMessage r t f s) = currentOutputTextRef s"
  using assms by (simp_all add: updateMessage_def truthy_opt_def Let_def applyUpdate_present)

lemma updateMessage_blank:
  assumes "\<not> truthy_opt (getActive r (activeMessageIds s))" "blank t"
  shows "updateMessage r t f s = s"
  using assms by (simp add: updateMessage_def Let_def truthy_trim_iff)

lemma updateMessage_fresh:
  assumes "\<not> truthy_opt (getActive r (activeMessageIds s))" "\<not> blank t"
    "generateId (shd (entropy s)) \<notin> id_m ` set (messages s)"
  shows "messages (updateMessage r t f s)
           = messages s @ [\<lparr>id_m = generateId (shd (entropy s)), role = r, text_m = t, isPartial = \<not> f\<rparr>]"
    and "activeMessageIds (updateMessage r t f s)
           = setActive r (if f then None else Some (generateId (shd (entropy s)))) (activeMessageIds s)"
    and "entropy (updateMessage r t f s) = stl (entropy s)"
    and "currentInputTextRef (updateMessage r t f s) = currentInputTextRef s"
    and "currentOutputTextRef (updateMessage r t f s) = currentOutputTextRef s"
proof -
  have abs: "findIndex (\<lambda>m. id_m m = generateId (shd (entropy s))) (messages s) = None"
    using assms(3) by (force simp: findIndex_None_iff)
  have set2: "setActive r v (setActive r v' a) = setActive r v a" for v v' a
    by (cases r) (simp_all add: setActive_def)
  show "messages (updateMessage r t f s)
           = messages s @ [\<lparr>id_m = generateId (shd (entropy s)), role = r, text_m = t, isPartial = \<not> f\<rparr>]"
    using assms(1,2) abs
    by (simp add: updateMessage_def Let_def truthy_trim_iff truthy_opt_def truthy_generateId
        applyUpdate_absent)
  show "activeMessageIds (updateMessage r t f s)
           = setActive r (if f then None else Some (generateId (shd (entropy s)))) (activeMessageIds s)"
    using assms(1,2)
    by (simp add: updateMessage_def Let_def truthy_trim_iff truthy_opt_def truthy_generateId set2)
  show "entropy (updateMessage r t f s) = stl (entropy s)"
    using assms(1,2)
    by (simp add: updateMessage_def Let_def truthy_trim_iff truthy_opt_def truthy_generateId)
  show "currentInputTextRef (updateMessage r t f s) = currentInputTextRef s"
    by (simp add: updateMessage_def Let_def)
  show "currentOutputTextRef (updateMessage r t f s) = currentOutputTextRef s"
    by (simp add: updateMessage_def Let_def)
qed

lemma buffer_updateMessage: "buffer r' (updateMessage r t f s) = buffer r' s"
  by (cases r') (simp_all add: buffer_def updateMessage_def Let_def)

lemma tracksD:
  "tracks r s k \<Longrightarrow> \<exists>i. getActive r (activeMessageIds s) = Some i \<and> truthy i \<and>
     findIndex (\<lambda>m. id_m m = i) (messages s) = Some k \<and> role (messages s ! k) = r \<and> k < length (messages s)"
  by (auto simp: tracks_def split: option.splits dest: findIndex_Some)

lemma onInterrupted_tracked:
  assumes "currentOutputTextRef s \<noteq> []" "tracks Model s k"
  shows "onmessage interruptedMsg s = onInterrupted s \<and>
     k < length (messages s) \<and> role (messages s ! k) = Model \<and>
     messages (onInterrupted s) = (messages s)[k := (messages s ! k)
        \<lparr>text_m := currentOutputTextRef s @ lit '' ...'', isPartial := False\<rparr>] \<and>
     currentOutputTextRef (onInterrupted s) = [] \<and>
     model (activeMessageIds (onInterrupted s)) = None \<and>
     currentInputTextRef (onInterrupted s) = currentInputTextRef s \<and>
     user (activeMessageIds (onInterrupted s)) = user (activeMessageIds s)"
proof -
  from tracksD [OF assms(2)] obtain i where i: "getActive Model (activeMessageIds s) = Some i"
    "truthy i" "findIndex (\<lambda>m. id_m m = i) (messages s) = Some k"
    "role (messages s ! k) = Model" "k < length (messages s)"
    by blast
  note u = updateMessage_tracked [OF i(1,2,3), of "currentOutputTextRef s @ lit '' ...''" True]
  show ?thesis
    using assms(1) i(4,5) u
    by (simp add: onmessage_interruptedMsg onInterrupted_def truthy_def setActive_def)
qed

lemma onInterrupted_untracked:
  assumes "currentOutputTextRef s \<noteq> []" "getActive Model (activeMessageIds s) = None"
    "generateId (shd (entropy s)) \<notin> id_m ` set (messages s)"
  shows "messages (onInterrupted s) = messages s @ [\<lparr>id_m = generateId (shd (entropy s)),
      role = Model, text_m = currentOutputTextRef s @ lit '' ...'', isPartial = False\<rparr>] \<and>
    currentOutputTextRef (onInterrupted s) = [] \<and>
    model (activeMessageIds (onInterrupted s)) = None"
proof -
  have nb: "\<not> blank (currentOutputTextRef s @ lit '' ...'')"
    by (simp add: blank_def lit_def isWhiteSpace_def)
  have un: "\<not> truthy_opt (getActive Model (activeMessageIds s))"
    using assms(2) by (simp add: truthy_opt_def)
  note u = updateMessage_fresh [OF un nb assms(3), of True]
  show ?thesis
    using assms(1) u(1,2)
    by (simp add: onInterrupted_def truthy_def setActive_def)
qed

lemma onTurnComplete_cases:
  "(buffer r s \<noteq> [] \<and> tracks r s k \<longrightarrow>
      k < length (messages s) \<and> role (messages s ! k) = r \<and>
      messages (onTurnComplete r s)
        = (messages s)[k := (messages s ! k)\<lparr>text_m := buffer r s, isPartial := False\<rparr>] \<and>
      buffer r (onTurnComplete r s) = [] \<and>
      getActive r (activeMessageIds (onTurnComplete r s)) = None) \<and>
   (blank (buffer r s) \<and> getActive r (activeMessageIds s) = None \<longrightarrow>
      messages (onTurnComplete r s) = messages s \<and>
      buffer r (onTurnComplete r s) = [] \<and>
      getActive r (activeMessageIds (onTurnComplete r s)) = None)"
proof (intro conjI impI)
  assume a: "buffer r s \<noteq> [] \<and> tracks r s k"
  then obtain i where i: "getActive r (activeMessageIds s) = Some i"
    "truthy i" "findIndex (\<lambda>m. id_m m = i) (messages s) = Some k"
    "role (messages s ! k) = r" "k < length (messages s)"
    using tracksD by blast
  note u = updateMessage_tracked [OF i(1,2,3), of "buffer r s" True]
  have act: "getActive r (activeMessageIds (setBuffer r b s')) = getActive r (activeMessageIds s')" for b s'
    by (cases r) (simp_all add: setBuffer_def)
  show "k < length (messages s)" by (rule i(5))
  show "role (messages s ! k) = r" by (rule i(4))
  show "messages (onTurnComplete r s)
        = (messages s)[k := (messages s ! k)\<lparr>text_m := buffer r s, isPartial := False\<rparr>]"
    using a u(1) by (simp add: onTurnComplete_def truthy_def messages_setBuffer)
  show "buffer r (onTurnComplete r s) = []"
    using a by (simp add: onTurnComplete_def truthy_def buffer_setBuffer)
  show "getActive r (activeMessageIds (onTurnComplete r s)) = None"
    using a u(2) by (simp add: onTurnComplete_def truthy_def act getActive_setActive)
next
  assume b: "blank (buffer r s) \<and> getActive r (activeMessageIds s) = None"
  then have un: "\<not> truthy_opt (getActive r (activeMessageIds s))"
    by (simp add: truthy_opt_def)
  have u: "updateMessage r (buffer r s) True s = s"
    using un b by (simp add: updateMessage_blank)
  have act: "getActive r (activeMessageIds (setBuffer r c s')) = getActive r (activeMessageIds s')" for c s'
    by (cases r) (simp_all add: setBuffer_def)
  show "messages (onTurnComplete r s) = messages s"
    by (simp add: onTurnComplete_def u messages_setBuffer)
  show "buffer r (onTurnComplete r s) = []"
    by (simp add: onTurnComplete_def u buffer_setBuffer truthy_def)
  show "getActive r (activeMessageIds (onTurnComplete r s)) = None"
    using b by (simp add: onTurnComplete_def u act)
qed

lemma deliver_Nil: "deliver r [] s = s"
  by (simp add: deliver_def)

lemma deliver_Cons:
  "deliver r (f # frags) s = deliver r frags (onTranscription r (Transcription (Some f)) s)"
  by (simp add: deliver_def onmessage_transcriptionMsg)

lemma onTranscription_fragment:
  "onTranscription r (Transcription (Some f)) s =
     (if f = [] then s
      else updateMessage r (buffer r s @ f) False (setBuffer r (buffer r s @ f) s))"
  by (simp add: onTranscription_def truthy_def Let_def buffer_setBuffer)

lemma active_setBuffer: "activeMessageIds (setBuffer r b s) = activeMessageIds s"
  by (cases r) (simp_all add: setBuffer_def)

lemma entropy_setBuffer: "entropy (setBuffer r b s) = entropy s"
  by (cases r) (simp_all add: setBuffer_def)

lemma setBuffer_setBuffer: "setBuffer r b (setBuffer r c s) = setBuffer r b s"
  by (cases r) (simp_all add: setBuffer_def)

lemma setBuffer_same: "setBuffer r (buffer r s) s = s"
  by (cases r) (simp_all add: setBuffer_def buffer_def)

lemma blank_append: "blank (a @ b) \<longleftrightarrow> blank a \<and> blank b"
  by (simp add: blank_def)

lemma blank_concat: "blank (concat fs) \<longleftrightarrow> (\<forall>f\<in>set fs. blank f)"
  by (induction fs) (simp_all add: blank_append, simp add: blank_def)

lemma deliver_blank:
  assumes "getActive r (activeMessageIds s) = None" "blank (buffer r s)" "\<forall>f\<in>set frags. blank f"
  shows "deliver r frags s = setBuffer r (buffer r s @ concat frags) s"
  using assms
proof (induction frags arbitrary: s)
  case Nil
  then show ?case by (simp add: deliver_Nil setBuffer_same)
next
  case (Cons f frags)
  show ?case
  proof (cases "f = []")
    case True
    with Cons show ?thesis
      by (simp add: deliver_Cons onTranscription_fragment)
  next
    case False
    let ?s = "setBuffer r (buffer r s @ f) s"
    have un: "\<not> truthy_opt (getActive r (activeMessageIds ?s))"
      using Cons.prems(1) by (simp add: active_setBuffer truthy_opt_def)
    have bl: "blank (buffer r s @ f)"
      using Cons.prems by (simp add: blank_append)
    have step: "onTranscription r (Transcription (Some f)) s = ?s"
      using False updateMessage_blank [OF un bl] by (simp add: onTranscription_fragment)
    have "deliver r frags ?s = setBuffer r (buffer r ?s @ concat frags) ?s"
      using Cons.prems bl
      by (intro Cons.IH) (simp_all add: active_setBuffer buffer_setBuffer)
    then show ?thesis
      by (simp add: deliver_Cons step buffer_setBuffer setBuffer_setBuffer)
  qed
qed

lemma updateMessage_blank_entropy:
  "blank t \<Longrightarrow> entropy (updateMessage r t f s) = entropy s"
  by (simp add: updateMessage_def Let_def truthy_trim_iff)

text \<open>
  Claim C10, as amended. From a state where the role has no tracked message and a blank
  buffer, fragments that are all blank create no message while they arrive, and none at
  the turn-complete signal either, though the buffer is not empty then: no id is
  taken from the clock. In general \<open>updateMessage\<close> generates no id when the text it is
  given is blank.
\<close>

theorem blank_turn_creates_no_message:
  assumes "getActive r (activeMessageIds s) = None" "blank (buffer r s)" "\<forall>f\<in>set frags. blank f"
  shows "deliver r frags s = setBuffer r (buffer r s @ concat frags) s \<and>
     messages (deliver r frags s) = messages s \<and>
     entropy (deliver r frags s) = entropy s \<and>
     onTurnComplete r (deliver r frags s) = setBuffer r [] s \<and>
     messages (onTurnComplete r (deliver r frags s)) = messages s \<and>
     entropy (onTurnComplete r (deliver r frags s)) = entropy s \<and>
     (\<forall>r' t f s'. blank t \<longrightarrow> entropy (updateMessage r' t f s') = entropy s')"
proof -
  let ?s = "setBuffer r (buffer r s @ concat frags) s"
  have d: "deliver r frags s = ?s"
    using assms by (rule deliver_blank)
  have un: "\<not> truthy_opt (getActive r (activeMessageIds ?s))"
    using assms(1) by (simp add: active_setBuffer truthy_opt_def)
  have bl: "blank (buffer r s @ concat frags)"
    using assms(2,3) by (simp add: blank_append blank_concat)
  have t: "onTurnComplete r ?s = setBuffer r [] s"
  proof (cases "buffer r s @ concat frags = []")
    case True
    have "onTurnComplete r ?s = ?s"
      unfolding True by (simp add: onTurnComplete_def buffer_setBuffer truthy_def)
    then show ?thesis
      by (simp only: True)
  next
    case False
    then show ?thesis
      using updateMessage_blank [OF un bl, of True]
      by (simp add: onTurnComplete_def buffer_setBuffer setBuffer_setBuffer truthy_def)
  qed
  show ?thesis
    unfolding d t
    by (simp add: messages_setBuffer entropy_setBuffer updateMessage_blank_entropy)
qed

lemma findIndex_rewrite_text:
  "findIndex (\<lambda>m. id_m m = i) (xs[k := (xs ! k)\<lparr>text_m := t\<rparr>])
     = findIndex (\<lambda>m. id_m m = i) xs"
proof -
  have "map id_m (xs[k := (xs ! k)\<lparr>text_m := t\<rparr>]) = map id_m xs"
    by (rule map_id_update) simp
  then show ?thesis
    by (simp add: findIndex_map [of id_m])
qed

lemma partial_rewrite:
  "isPartial m \<Longrightarrow> m\<lparr>text_m := t, isPartial := True\<rparr> = m\<lparr>text_m := t\<rparr>"
  by (cases m) simp

lemma deliver_tracked:
  assumes "getActive r (activeMessageIds s) = Some i" "truthy i"
    "findIndex (\<lambda>m. id_m m = i) (messages s) = Some k"
    "text_m (messages s ! k) = buffer r s" "isPartial (messages s ! k)"
  shows "messages (deliver r frags s)
           = (messages s)[k := (messages s ! k)\<lparr>text_m := buffer r s @ concat frags\<rparr>] \<and>
         buffer r (deliver r frags s) = buffer r s @ concat frags \<and>
         activeMessageIds (deliver r frags s) = activeMessageIds s \<and>
         entropy (deliver r frags s) = entropy s"
  using assms
proof (induction frags arbitrary: s)
  case Nil
  have "(messages s ! k)\<lparr>text_m := buffer r s\<rparr> = messages s ! k"
    using Nil(4) by (cases "messages s ! k") simp
  then show ?case
    by (simp add: deliver_Nil)
next
  case (Cons f frags)
  have k: "k < length (messages s)"
    using Cons.prems(3) by (auto dest: findIndex_Some)
  show ?case
  proof (cases "f = []")
    case True
    with Cons show ?thesis
      by (simp add: deliver_Cons onTranscription_fragment)
  next
    case False
    let ?b = "buffer r s @ f"
    let ?s1 = "setBuffer r ?b s"
    let ?s' = "updateMessage r ?b False ?s1"
    have step: "onTranscription r (Transcription (Some f)) s = ?s'"
      using False by (simp add: onTranscription_fragment)
    have a1: "getActive r (activeMessageIds ?s1) = Some i"
      using Cons.prems(1) by (simp add: active_setBuffer)
    have f1: "findIndex (\<lambda>m. id_m m = i) (messages ?s1) = Some k"
      using Cons.prems(3) by (simp add: messages_setBuffer)
    note u = updateMessage_tracked [OF a1 Cons.prems(2) f1, of ?b False]
    have m': "messages ?s' = (messages s)[k := (messages s ! k)\<lparr>text_m := ?b\<rparr>]"
      using u(1) Cons.prems(5) by (simp add: messages_setBuffer partial_rewrite)
    have b': "buffer r ?s' = ?b"
      by (simp add: buffer_updateMessage buffer_setBuffer)
    have act': "activeMessageIds ?s' = activeMessageIds s"
      using u(2) by (simp add: active_setBuffer)
    have e': "entropy ?s' = entropy s"
      using u(3) by (simp add: entropy_setBuffer)
    have ih: "messages (deliver r frags ?s')
           = (messages ?s')[k := (messages ?s' ! k)\<lparr>text_m := buffer r ?s' @ concat frags\<rparr>] \<and>
         buffer r (deliver r frags ?s') = buffer r ?s' @ concat frags \<and>
         activeMessageIds (deliver r frags ?s') = activeMessageIds ?s' \<and>
         entropy (deliver r frags ?s') = entropy ?s'"
    proof (rule Cons.IH)
      show "getActive r (activeMessageIds ?s') = Some i"
        using Cons.prems(1) by (simp add: act')
      show "truthy i" by (rule Cons.prems(2))
      show "findIndex (\<lambda>m. id_m m = i) (messages ?s') = Some k"
        using Cons.prems(3) by (simp only: m' findIndex_rewrite_text)
      show "text_m (messages ?s' ! k) = buffer r ?s'"
        using k by (simp only: m' b') simp
      show "isPartial (messages ?s' ! k)"
        using k Cons.prems(5) by (simp only: m') simp
    qed
    show ?thesis
      using ih k unfolding deliver_Cons step
      by (simp only: m' b' act' e') simp
  qed
qed

lemma onTranscription_blank:
  assumes "getActive r (activeMessageIds s) = None" "blank (buffer r s)" "blank f"
  shows "onTranscription r (Transcription (Some f)) s = setBuffer r (buffer r s @ f) s"
  using deliver_blank [OF assms(1,2), of "[f]"] assms(3)
  by (simp add: deliver_Cons deliver_Nil)

lemma deliver_untracked:
  assumes "getActive r (activeMessageIds s) = None" "blank (buffer r s)"
    "\<not> blank (concat frags)"
    "generateId (shd (entropy s)) \<notin> id_m ` set (messages s)"
  shows "messages (deliver r frags s)
           = messages s @ [\<lparr>id_m = generateId (shd (entropy s)), role = r,
               text_m = buffer r s @ concat frags, isPartial = True\<rparr>] \<and>
         buffer r (deliver r frags s) = buffer r s @ concat frags \<and>
         activeMessageIds (deliver r frags s)
           = setActive r (Some (generateId (shd (entropy s)))) (activeMessageIds s) \<and>
         entropy (deliver r frags s) = stl (entropy s)"
  using assms
proof (induction frags arbitrary: s)
  case Nil
  then show ?case by (simp add: blank_def)
next
  case (Cons f frags)
  let ?b = "buffer r s @ f"
  let ?s1 = "setBuffer r ?b s"
  let ?new = "generateId (shd (entropy s))"
  show ?case
  proof (cases "blank f")
    case True
    have step: "onTranscription r (Transcription (Some f)) s = ?s1"
      using Cons.prems(1,2) True by (rule onTranscription_blank)
    have "messages (deliver r frags ?s1)
           = messages ?s1 @ [\<lparr>id_m = generateId (shd (entropy ?s1)), role = r,
               text_m = buffer r ?s1 @ concat frags, isPartial = True\<rparr>] \<and>
         buffer r (deliver r frags ?s1) = buffer r ?s1 @ concat frags \<and>
         activeMessageIds (deliver r frags ?s1)
           = setActive r (Some (generateId (shd (entropy ?s1)))) (activeMessageIds ?s1) \<and>
         entropy (deliver r frags ?s1) = stl (entropy ?s1)"
      using Cons.prems True
      by (intro Cons.IH)
        (simp_all add: active_setBuffer buffer_setBuffer blank_append messages_setBuffer
          entropy_setBuffer)
    then show ?thesis
      unfolding deliver_Cons step
      by (simp add: active_setBuffer buffer_setBuffer messages_setBuffer entropy_setBuffer)
  next
    case False
    let ?s' = "updateMessage r ?b False ?s1"
    have ne: "f \<noteq> []"
      using False by (auto simp: blank_def)
    have step: "onTranscription r (Transcription (Some f)) s = ?s'"
      using ne by (simp add: onTranscription_fragment)
    have un: "\<not> truthy_opt (getActive r (activeMessageIds ?s1))"
      using Cons.prems(1) by (simp add: active_setBuffer truthy_opt_def)
    have nb: "\<not> blank ?b"
      using False by (simp add: blank_append)
    have fr: "generateId (shd (entropy ?s1)) \<notin> id_m ` set (messages ?s1)"
      using Cons.prems(4) by (simp add: messages_setBuffer entropy_setBuffer)
    note u = updateMessage_fresh [OF un nb fr, of False]
    let ?m = "\<lparr>id_m = ?new, role = r, text_m = ?b, isPartial = True\<rparr>"
    have m': "messages ?s' = messages s @ [?m]"
      using u(1) by (simp add: messages_setBuffer entropy_setBuffer)
    have act': "activeMessageIds ?s' = setActive r (Some ?new) (activeMessageIds s)"
      using u(2) by (simp add: active_setBuffer entropy_setBuffer)
    have e': "entropy ?s' = stl (entropy s)"
      using u(3) by (simp add: entropy_setBuffer)
    have b': "buffer r ?s' = ?b"
      by (simp add: buffer_updateMessage buffer_setBuffer)
    have abs: "findIndex (\<lambda>m. id_m m = ?new) (messages s) = None"
      using Cons.prems(4) by (force simp: findIndex_None_iff)
    have fi: "findIndex (\<lambda>m. id_m m = ?new) (messages ?s') = Some (length (messages s))"
      by (simp add: m' findIndex_append_absent [OF abs])
    have tr: "messages (deliver r frags ?s')
           = (messages ?s')[length (messages s) :=
               (messages ?s' ! length (messages s))\<lparr>text_m := buffer r ?s' @ concat frags\<rparr>] \<and>
         buffer r (deliver r frags ?s') = buffer r ?s' @ concat frags \<and>
         activeMessageIds (deliver r frags ?s') = activeMessageIds ?s' \<and>
         entropy (deliver r frags ?s') = entropy ?s'"
    proof (rule deliver_tracked [where i = ?new])
      show "getActive r (activeMessageIds ?s') = Some ?new"
        by (simp add: act' getActive_setActive)
      show "truthy ?new" by (rule truthy_generateId)
      show "findIndex (\<lambda>m. id_m m = ?new) (messages ?s') = Some (length (messages s))"
        by (rule fi)
      show "text_m (messages ?s' ! length (messages s)) = buffer r ?s'"
        by (simp only: m' b') simp
      show "isPartial (messages ?s' ! length (messages s))"
        by (simp only: m') simp
    qed
    show ?thesis
      using tr unfolding deliver_Cons step
      by (simp only: m' b' act' e') simp
  qed
qed

lemma deliver_turn_start:
  assumes "getActive r (activeMessageIds s) = None" "buffer r s = []"
    "\<not> blank (concat frags)"
    "generateId (shd (entropy s)) \<notin> id_m ` set (messages s)"
  shows "messages (deliver r frags s)
           = messages s @ [\<lparr>id_m = generateId (shd (entropy s)), role = r,
               text_m = concat frags, isPartial = True\<rparr>] \<and>
         buffer r (deliver r frags s) = concat frags \<and>
         getActive r (activeMessageIds (deliver r frags s)) = Some (generateId (shd (entropy s))) \<and>
         ((\<forall>m\<in>set (messages s). role m = r \<longrightarrow> \<not> isPartial m) \<longrightarrow>
            filter (\<lambda>m. role m = r \<and> isPartial m) (messages (deliver r frags s))
              = [\<lparr>id_m = generateId (shd (entropy s)), role = r,
                   text_m = concat frags, isPartial = True\<rparr>])"
proof -
  have bl: "blank (buffer r s)"
    using assms(2) by (simp add: blank_def)
  note d = deliver_untracked [OF assms(1) bl assms(3,4)]
  have "filter (\<lambda>m. role m = r \<and> isPartial m) (messages s) = []"
    if "\<forall>m\<in>set (messages s). role m = r \<longrightarrow> \<not> isPartial m"
    using that by (auto simp: filter_empty_conv)
  then show ?thesis
    using d assms(2) by (simp add: getActive_setActive)
qed

lemmas eval_defs = deliver_def run_def initial_def initAI_def truthy_opt_def truthy_def
  connect_def connectRest_def okConnect_def onopen_def Let_def
  onmessage_def transcriptionMsg_def turnCompleteMsg_def interruptedMsg_def
  onTranscription_def onTurnComplete_def onInterrupted_def setBuffer_def buffer_def
  updateMessage_def getActive_def setActive_def trim_def isWhiteSpace_def lit_def blank_def
  applyUpdate_def generateId_def toString_def digit_def tracks_def

lemma entropy_exampleSession: "shd (entropy exampleSession) = (43, lit ''x'')"
  by (simp add: exampleSession_eq exampleWorld_def)

lemma exampleReply_eq:
  "exampleReply = \<lparr>isConnected = True,
     messages = [\<lparr>id_m = lit ''42x'', role = User, text_m = lit ''hel'', isPartial = True\<rparr>,
                 \<lparr>id_m = lit ''43x'', role = Model, text_m = lit ''yes'', isPartial = True\<rparr>],
     error = None, aiRef = Some (lit ''key''), sessionRef = True,
     inputContextRef = Some Running, sourceNodeRef = Some True, processorNodeRef = Some True,
     inputAnalyserRef = True, micStream = True, currentInputTextRef = lit ''hel'',
     currentOutputTextRef = lit ''yes'',
     activeMessageIds = \<lparr>user = Some (lit ''42x''), model = Some (lit ''43x'')\<rparr>,
     entropy = stl (stl exampleWorld)\<rparr>"
  unfolding exampleReply_def exampleSession_eq
  by (simp add: eval_defs exampleWorld_def)

text \<open>Claim C2 as stated fails on a single fragment that is one space: it is not empty,
  yet no message exists afterwards.\<close>

theorem fragments_blank_counterexample:
  "[0x20] \<noteq> ([] :: js_string) \<and> messages (deliver User [[0x20]] (initial exampleWorld)) = []"
  by (simp add: eval_defs)

text \<open>Claim C3 as stated fails when the buffer holds one space: the signal arrives
  while the buffer is not empty, and no message is marked final, since none exists.\<close>

theorem turn_complete_blank_counterexample:
  "currentInputTextRef (deliver User [[0x20]] (initial exampleWorld)) = [0x20] \<and>
   messages (onmessage turnCompleteMsg (deliver User [[0x20]] (initial exampleWorld))) = []"
  by (simp add: eval_defs)

text \<open>Claim C10 as stated fails for a model turn that is interrupted: the only fragment
  is one space, and the interruption creates a message for the model.\<close>

theorem blank_turn_interrupted_counterexample:
  "blank [0x20] \<and>
   messages (onmessage interruptedMsg (deliver Model [[0x20]] (initial exampleWorld)))
     = [\<lparr>id_m = lit ''42x'', role = Model, text_m = [0x20] @ lit '' ...'', isPartial = False\<rparr>]"
  by (simp add: eval_defs shd_exampleWorld)

theorem blank_turn_creates_no_message_witness:
  "getActive User (activeMessageIds (initial exampleWorld)) = None \<and>
   blank (buffer User (initial exampleWorld)) \<and> blank [0x20] \<and> blank [0x9, 0xA] \<and>
   messages (deliver User [[0x20], [0x9, 0xA]] (initial exampleWorld)) = [] \<and>
   messages (onTurnComplete User (deliver User [[0x20], [0x9, 0xA]] (initial exampleWorld))) = [] \<and>
   entropy (onTurnComplete User (deliver User [[0x20], [0x9, 0xA]] (initial exampleWorld)))
     = exampleWorld"
proof -
  let ?d = "deliver User [[0x20], [0x9, 0xA]] (initial exampleWorld)"
  have h1: "getActive User (activeMessageIds (initial exampleWorld)) = None"
    by (simp add: initial_def getActive_def)
  have h2: "blank (buffer User (initial exampleWorld))"
    by (simp add: initial_def buffer_def blank_def)
  have b: "blank [0x20] \<and> blank [0x9, 0xA]"
    by (simp add: blank_def isWhiteSpace_def)
  then have h3: "\<forall>f\<in>set [[0x20], [0x9, 0xA]]. blank f"
    by simp
  have i1: "messages (initial exampleWorld) = []"
    by (simp add: initial_def)
  have i2: "entropy (initial exampleWorld) = exampleWorld"
    by (simp add: initial_def)
  note t = blank_turn_creates_no_message [OF h1 h2 h3]
  from t have "messages ?d = messages (initial exampleWorld)"
    by blast
  then have r1: "messages ?d = []"
    using i1 by (rule trans)
  from t have "messages (onTurnComplete User ?d) = messages (initial exampleWorld)"
    by blast
  then have r2: "messages (onTurnComplete User ?d) = []"
    using i1 by (rule trans)
  from t have "entropy (onTurnComplete User ?d) = entropy (initial exampleWorld)"
    by blast
  then have r3: "entropy (onTurnComplete User ?d) = exampleWorld"
    using i2 by (rule trans)
  show ?thesis
    using h1 h2 b r1 r2 r3 by blast
qed



section \<open>Reachable states are well formed\<close>

text \<open>
  The hypotheses of the theorems on turn completion and interruption hold in every
  reachable state: with distinct ids, each role either tracks its message in progress,
  whose text is its buffer, or tracks nothing and has a blank buffer.
\<close>

lemma consistent_cases:
  "consistent r s \<longleftrightarrow>
     (getActive r (activeMessageIds s) = None \<and> blank (buffer r s)) \<or>
     (\<exists>k. tracks r s k \<and> text_m (messages s ! k) = buffer r s \<and> isPartial (messages s ! k))"
  by (auto simp: consistent_def tracks_def split: option.splits)

lemma findIndex_append_present:
  "findIndex P xs = Some j \<Longrightarrow> findIndex P (xs @ ys) = Some j"
  by (induction xs arbitrary: j) (auto split: if_splits)

lemma tracks_rewrite_other:
  assumes "tracks r s j" "role (messages s ! k) \<noteq> r"
    "getActive r (activeMessageIds s') = getActive r (activeMessageIds s)"
    "messages s' = (messages s)[k := (messages s ! k)\<lparr>text_m := t, isPartial := p\<rparr>]"
  shows "tracks r s' j \<and> messages s' ! j = messages s ! j"
proof -
  from tracksD [OF assms(1)] obtain i where i: "getActive r (activeMessageIds s) = Some i"
    "truthy i" "findIndex (\<lambda>m. id_m m = i) (messages s) = Some j"
    "role (messages s ! j) = r" "j < length (messages s)"
    by blast
  have "j \<noteq> k" using i(4) assms(2) by auto
  then have same: "messages s' ! j = messages s ! j"
    by (simp add: assms(4))
  have "findIndex (\<lambda>m. id_m m = i) (messages s') = Some j"
    using i(3) by (simp only: assms(4) findIndex_rewrite)
  then have "tracks r s' j"
    using i(1,2,4) same by (simp add: tracks_def assms(3))
  with same show ?thesis by simp
qed

lemma tracks_append:
  assumes "tracks r s j"
    "getActive r (activeMessageIds s') = getActive r (activeMessageIds s)"
    "messages s' = messages s @ [m]"
  shows "tracks r s' j \<and> messages s' ! j = messages s ! j"
proof -
  from tracksD [OF assms(1)] obtain i where i: "getActive r (activeMessageIds s) = Some i"
    "truthy i" "findIndex (\<lambda>m. id_m m = i) (messages s) = Some j"
    "role (messages s ! j) = r" "j < length (messages s)"
    by blast
  have same: "messages s' ! j = messages s ! j"
    using i(5) by (simp add: assms(3) nth_append)
  have "findIndex (\<lambda>m. id_m m = i) (messages s') = Some j"
    using i(3) by (simp only: assms(3) findIndex_append_present)
  then have "tracks r s' j"
    using i(1,2,4) same by (simp add: tracks_def assms(2))
  with same show ?thesis by simp
qed

lemma tracks_same:
  assumes "tracks r s j" "getActive r (activeMessageIds s') = getActive r (activeMessageIds s)"
    "messages s' = messages s"
  shows "tracks r s' j"
  using assms by (simp add: tracks_def split: option.splits)

lemma consistent_frame:
  assumes "consistent r s"
    "getActive r (activeMessageIds s') = getActive r (activeMessageIds s)"
    "buffer r s' = buffer r s"
    "messages s' = messages s \<or>
     (\<exists>m. messages s' = messages s @ [m]) \<or>
     (\<exists>k t p. role (messages s ! k) \<noteq> r \<and>
        messages s' = (messages s)[k := (messages s ! k)\<lparr>text_m := t, isPartial := p\<rparr>])"
  shows "consistent r s'"
proof -
  from assms(1) consider
    (untracked) "getActive r (activeMessageIds s) = None" "blank (buffer r s)"
    | (tracked) j where "tracks r s j" "text_m (messages s ! j) = buffer r s"
        "isPartial (messages s ! j)"
    by (auto simp: consistent_cases)
  then show ?thesis
  proof cases
    case untracked
    then show ?thesis by (simp add: consistent_cases assms(2,3))
  next
    case tracked
    have "tracks r s' j \<and> messages s' ! j = messages s ! j"
      using assms(4) tracks_same [OF tracked(1) assms(2)]
        tracks_append [OF tracked(1) assms(2)]
        tracks_rewrite_other [OF tracked(1) _ assms(2)]
      by (elim disjE exE conjE) simp_all
    then show ?thesis
      using tracked(2,3) by (auto simp: consistent_cases assms(3))
  qed
qed

lemma wellTracked_cases:
  "wellTracked r s \<longleftrightarrow> getActive r (activeMessageIds s) = None \<or> (\<exists>k. tracks r s k)"
  by (auto simp: wellTracked_def tracks_def split: option.splits)

lemma consistent_wellTracked: "consistent r s \<Longrightarrow> wellTracked r s"
  by (auto simp: consistent_cases wellTracked_cases)

lemma freshIds_same:
  "freshIds s \<Longrightarrow> entropy s' = entropy s \<Longrightarrow> id_m ` set (messages s') = id_m ` set (messages s)
   \<Longrightarrow> freshIds s'"
  by (simp add: freshIds_def)

lemma ids_rewrite:
  "id_m ` set (xs[k := (xs ! k)\<lparr>text_m := t, isPartial := p\<rparr>]) = id_m ` set xs"
proof -
  have "set (map id_m (xs[k := (xs ! k)\<lparr>text_m := t, isPartial := p\<rparr>])) = set (map id_m xs)"
    by (simp only: map_id_rewrite)
  then show ?thesis by simp
qed

lemma freshIds_generate:
  assumes "freshIds s" "entropy s' = stl (entropy s)"
    "id_m ` set (messages s') = insert (generateId (shd (entropy s))) (id_m ` set (messages s))"
  shows "freshIds s'"
proof -
  have old: "generateId (entropy s !! n) \<notin> id_m ` set (messages s)" for n
    using assms(1) by (simp add: freshIds_def)
  have dis: "m \<noteq> n \<Longrightarrow> generateId (entropy s !! m) \<noteq> generateId (entropy s !! n)" for m n
    using assms(1) by (simp add: freshIds_def)
  have a: "generateId (stl (entropy s) !! n) \<notin> id_m ` set (messages s)" for n
    using old [of "Suc n"] by simp
  have b: "generateId (stl (entropy s) !! n) \<noteq> generateId (shd (entropy s))" for n
    using dis [of "Suc n" 0] by simp
  have c: "m \<noteq> n \<Longrightarrow> generateId (stl (entropy s) !! m) \<noteq> generateId (stl (entropy s) !! n)" for m n
    using dis [of "Suc m" "Suc n"] by simp
  show ?thesis
    unfolding freshIds_def assms(2,3) using a b c by simp
qed

lemma freshIds_head: "freshIds s \<Longrightarrow> generateId (shd (entropy s)) \<notin> id_m ` set (messages s)"
  unfolding freshIds_def by (metis snth.simps(1))

lemma getActive_other_updateMessage:
  "r' \<noteq> r \<Longrightarrow> getActive r' (activeMessageIds (updateMessage r t f s)) = getActive r' (activeMessageIds s)"
  by (simp add: updateMessage_def Let_def getActive_setActive)

text \<open>What one call of updateMessage does to a state whose role is well tracked.\<close>

lemma updateMessage_sound:
  assumes "freshIds s" "wellTracked r s" "consistent r' s" "r' \<noteq> r"
  shows "freshIds (updateMessage r t f s) \<and> consistent r' (updateMessage r t f s) \<and>
    (f \<longrightarrow> getActive r (activeMessageIds (updateMessage r t f s)) = None) \<and>
    (\<not> f \<longrightarrow>
       (blank t \<and> getActive r (activeMessageIds s) = None \<and> updateMessage r t f s = s) \<or>
       (\<exists>k. tracks r (updateMessage r t f s) k \<and>
            text_m (messages (updateMessage r t f s) ! k) = t \<and>
            isPartial (messages (updateMessage r t f s) ! k)))"
proof -
  let ?s' = "updateMessage r t f s"
  have buf: "buffer r' ?s' = buffer r' s"
    by (rule buffer_updateMessage)
  have act: "getActive r' (activeMessageIds ?s') = getActive r' (activeMessageIds s)"
    using assms(4) by (rule getActive_other_updateMessage)
  from assms(2) consider
    (tracked) k where "tracks r s k"
    | (idle) "getActive r (activeMessageIds s) = None" "blank t"
    | (new) "getActive r (activeMessageIds s) = None" "\<not> blank t"
    by (auto simp: wellTracked_cases)
  then show ?thesis
  proof cases
    case tracked
    from tracksD [OF tracked] obtain i where i: "getActive r (activeMessageIds s) = Some i"
      "truthy i" "findIndex (\<lambda>m. id_m m = i) (messages s) = Some k"
      "role (messages s ! k) = r" "k < length (messages s)"
      by blast
    note u = updateMessage_tracked [OF i(1,2,3), of t f]
    have fr: "freshIds ?s'"
      using assms(1) u(3) by (rule freshIds_same) (simp add: u(1) ids_rewrite)
    have co: "consistent r' ?s'"
      using assms(3) act buf
    proof (rule consistent_frame)
      show "messages ?s' = messages s \<or> (\<exists>m. messages ?s' = messages s @ [m]) \<or>
        (\<exists>k t p. role (messages s ! k) \<noteq> r' \<and>
          messages ?s' = (messages s)[k := (messages s ! k)\<lparr>text_m := t, isPartial := p\<rparr>])"
      proof (intro disjI2 exI conjI)
        show "role (messages s ! k) \<noteq> r'"
          using i(4) assms(4) by simp
        show "messages ?s' = (messages s)[k := (messages s ! k)\<lparr>text_m := t, isPartial := \<not> f\<rparr>]"
          by (rule u(1))
      qed
    qed
    have fin: "f \<Longrightarrow> getActive r (activeMessageIds ?s') = None"
      using u(2) by (simp add: getActive_setActive)
    have par: "\<not> f \<Longrightarrow> tracks r ?s' k \<and> text_m (messages ?s' ! k) = t \<and> isPartial (messages ?s' ! k)"
      using i u(1,2) by (simp add: tracks_def findIndex_rewrite)
    show ?thesis
      using fr co fin par by blast
  next
    case idle
    then have "\<not> truthy_opt (getActive r (activeMessageIds s))"
      by (simp add: truthy_opt_def)
    then have same: "updateMessage r t f' s = s" for f'
      using idle(2) by (rule updateMessage_blank)
    show ?thesis
      using assms(1,3) idle by (simp add: same)
  next
    case new
    then have un: "\<not> truthy_opt (getActive r (activeMessageIds s))"
      by (simp add: truthy_opt_def)
    note u = updateMessage_fresh [OF un new(2) freshIds_head [OF assms(1)], of f]
    let ?g = "generateId (shd (entropy s))"
    have fr: "freshIds ?s'"
      using assms(1) u(3) by (rule freshIds_generate) (simp add: u(1))
    have co: "consistent r' ?s'"
      using assms(3) act buf
    proof (rule consistent_frame)
      show "messages ?s' = messages s \<or> (\<exists>m. messages ?s' = messages s @ [m]) \<or>
        (\<exists>k t p. role (messages s ! k) \<noteq> r' \<and>
          messages ?s' = (messages s)[k := (messages s ! k)\<lparr>text_m := t, isPartial := p\<rparr>])"
        using u(1) by blast
    qed
    have fin: "f \<Longrightarrow> getActive r (activeMessageIds ?s') = None"
      using u(2) by (simp add: getActive_setActive)
    have abs: "findIndex (\<lambda>m. id_m m = ?g) (messages s) = None"
      using freshIds_head [OF assms(1)] by (force simp: findIndex_None_iff)
    have par: "\<not> f \<Longrightarrow> tracks r ?s' (length (messages s)) \<and>
        text_m (messages ?s' ! length (messages s)) = t \<and>
        isPartial (messages ?s' ! length (messages s))"
      using u(1,2)
      by (simp add: tracks_def getActive_setActive truthy_generateId findIndex_append_absent [OF abs])
    show ?thesis
      using fr co fin par by blast
  qed
qed

lemma sound_iff: "sound s \<longleftrightarrow> (\<forall>r. consistent r s) \<and> freshIds s"
  unfolding sound_def by (metis role.exhaust)

lemma consistent_same:
  assumes "consistent r s" "activeMessageIds s' = activeMessageIds s"
    "currentInputTextRef s' = currentInputTextRef s"
    "currentOutputTextRef s' = currentOutputTextRef s" "messages s' = messages s"
  shows "consistent r s'"
proof (rule consistent_frame [OF assms(1)])
  show "getActive r (activeMessageIds s') = getActive r (activeMessageIds s)"
    by (simp add: assms(2))
  show "buffer r s' = buffer r s"
    by (cases r) (simp_all add: buffer_def assms(3,4))
  show "messages s' = messages s \<or> (\<exists>m. messages s' = messages s @ [m]) \<or>
     (\<exists>k t p. role (messages s ! k) \<noteq> r \<and>
        messages s' = (messages s)[k := (messages s ! k)\<lparr>text_m := t, isPartial := p\<rparr>])"
    by (simp add: assms(5))
qed

lemma sound_same:
  assumes "sound s" "activeMessageIds s' = activeMessageIds s"
    "currentInputTextRef s' = currentInputTextRef s"
    "currentOutputTextRef s' = currentOutputTextRef s" "messages s' = messages s"
    "entropy s' = entropy s"
  shows "sound s'"
  using assms consistent_same [OF _ assms(2,3,4,5)] freshIds_same [of s s']
  by (simp add: sound_def)

lemma wellTracked_setBuffer: "wellTracked r (setBuffer r' b s) = wellTracked r s"
  unfolding wellTracked_def active_setBuffer messages_setBuffer ..

lemma freshIds_setBuffer: "freshIds (setBuffer r b s) = freshIds s"
  by (simp add: freshIds_def entropy_setBuffer messages_setBuffer)

lemma consistent_setBuffer_other:
  "r' \<noteq> r \<Longrightarrow> consistent r' (setBuffer r b s) = consistent r' s"
  unfolding consistent_def active_setBuffer messages_setBuffer buffer_setBuffer by simp

lemma sound_fragment:
  assumes "sound s"
  shows "sound (updateMessage r (buffer r s @ f) False (setBuffer r (buffer r s @ f) s))"
proof -
  let ?t = "buffer r s @ f"
  let ?s1 = "setBuffer r ?t s"
  let ?s' = "updateMessage r ?t False ?s1"
  from assms have all: "consistent x s" for x
    by (simp add: sound_iff)
  have fr: "freshIds ?s1"
    using assms by (simp add: freshIds_setBuffer sound_def)
  have wt: "wellTracked r ?s1"
    using consistent_wellTracked [OF all] by (simp add: wellTracked_setBuffer)
  have other: "consistent r' ?s1" if "r' \<noteq> r" for r'
    using that all by (simp add: consistent_setBuffer_other)
  have fresh': "freshIds ?s'"
  proof (cases r)
    case User
    show ?thesis
      using updateMessage_sound [OF fr wt other [of Model], of ?t False] User by simp
  next
    case Model
    show ?thesis
      using updateMessage_sound [OF fr wt other [of User], of ?t False] Model by simp
  qed
  have "consistent r' ?s'" for r'
  proof (cases "r' = r")
    case False
    then show ?thesis
      using updateMessage_sound [OF fr wt other [OF False] False, of ?t False] by blast
  next
    case True
    have b: "buffer r ?s' = ?t"
      by (simp add: buffer_updateMessage buffer_setBuffer)
    obtain r0 where r0: "r0 \<noteq> r"
      by (cases r) auto
    from updateMessage_sound [OF fr wt other [OF r0] r0, of ?t False]
    consider (idle) "blank ?t" "getActive r (activeMessageIds ?s1) = None" "?s' = ?s1"
      | (tracked) k where "tracks r ?s' k" "text_m (messages ?s' ! k) = ?t" "isPartial (messages ?s' ! k)"
      by auto
    then show ?thesis
    proof cases
      case idle
      have "getActive r (activeMessageIds ?s') = None \<and> blank (buffer r ?s')"
        using idle(1,2) by (simp only: idle(3) buffer_setBuffer) simp
      then show ?thesis
        by (simp add: True consistent_cases)
    next
      case tracked
      then show ?thesis
        unfolding True consistent_cases b by blast
    qed
  qed
  with fresh' show ?thesis
    by (simp add: sound_iff)
qed

lemma sound_onTranscription: "sound s \<Longrightarrow> sound (onTranscription r tr s)"
proof (cases tr)
  case (Transcription t)
  assume "sound s"
  then show ?thesis
    by (cases t) (simp_all add: Transcription onTranscription_fragment sound_fragment,
        simp add: onTranscription_def)
qed

lemma sound_finalize:
  assumes "sound s"
  shows "sound (setBuffer r [] (updateMessage r t True s))"
proof -
  let ?s' = "updateMessage r t True s"
  from assms have all: "consistent x s" for x
    by (simp add: sound_iff)
  have fr: "freshIds s"
    using assms by (simp add: sound_def)
  have wt: "wellTracked r s"
    by (rule consistent_wellTracked [OF all])
  obtain r0 where r0: "r0 \<noteq> r"
    by (cases r) auto
  note u0 = updateMessage_sound [OF fr wt all r0, of t True]
  have "consistent r' (setBuffer r [] ?s')" for r'
  proof (cases "r' = r")
    case False
    then show ?thesis
      using updateMessage_sound [OF fr wt all False, of t True]
      by (simp add: consistent_setBuffer_other)
  next
    case True
    have "getActive r (activeMessageIds ?s') = None"
      using u0 by blast
    then show ?thesis
      by (simp add: True consistent_cases active_setBuffer buffer_setBuffer blank_def)
  qed
  moreover have "freshIds (setBuffer r [] ?s')"
    using u0 by (simp add: freshIds_setBuffer)
  ultimately show ?thesis
    by (simp add: sound_iff)
qed

lemma sound_onTurnComplete: "sound s \<Longrightarrow> sound (onTurnComplete r s)"
  by (simp add: onTurnComplete_def sound_finalize)

lemma sound_onInterrupted: "sound s \<Longrightarrow> sound (onInterrupted s)"
  using sound_finalize [of s Model "currentOutputTextRef s @ lit '' ...''"]
  by (simp add: onInterrupted_def setBuffer_def)

lemma sound_onmessage: "sound s \<Longrightarrow> sound (onmessage msg s)"
  by (auto simp: onmessage_def Let_def sound_onTranscription sound_onTurnComplete
      sound_onInterrupted split: option.splits)

lemma sound_fold_onmessage: "sound s \<Longrightarrow> sound (fold onmessage msgs s)"
  by (induction msgs arbitrary: s) (simp_all add: sound_onmessage)

lemma sound_resetBuffers:
  assumes "sound s" "messages s' = messages s" "entropy s' = entropy s"
  shows "sound (resetBuffers s')"
proof -
  have "freshIds (resetBuffers s')"
    using assms by (simp add: sound_def freshIds_def resetBuffers_def)
  moreover have "consistent r (resetBuffers s')" for r
    by (cases r) (simp_all add: consistent_def resetBuffers_def getActive_def buffer_def blank_def)
  ultimately show ?thesis
    by (simp add: sound_iff)
qed

lemma sound_disconnectRest: "sound s \<Longrightarrow> sound (snd (disconnectRest env s))"
proof -
  assume a: "sound s"
  let ?s1 = "s\<lparr>sourceNodeRef := map_option (\<lambda>_. False) (sourceNodeRef s),
                   processorNodeRef := map_option (\<lambda>_. False) (processorNodeRef s)\<rparr>"
  have s1: "sound ?s1"
    using a by (rule sound_same) simp_all
  have f: "sound (fold onmessage (duringSessionAwait env) ?s1)"
    using s1 by (rule sound_fold_onmessage)
  have r1: "sound (resetBuffers ?s1)"
    using s1 by (rule sound_resetBuffers) simp_all
  have r2: "sound (resetBuffers ((fold onmessage (duringSessionAwait env) ?s1)\<lparr>sessionRef := False\<rparr>))"
    using f by (rule sound_resetBuffers) simp_all
  show ?thesis
    using s1 f r1 r2
    by (simp add: disconnectRest_def Let_def split: await_result.splits call_result.splits)
qed

lemma sound_disconnect: "sound s \<Longrightarrow> sound (snd (disconnect env s))"
proof -
  assume a: "sound s"
  have s0: "sound (s\<lparr>isConnected := False\<rparr>)"
    using a by (rule sound_same) simp_all
  have s0': "sound (s\<lparr>isConnected := False, inputContextRef := Some Closed\<rparr>)"
    using a by (rule sound_same) simp_all
  note r = sound_disconnectRest [of _ env]
  show ?thesis
    using s0 r [OF s0] r [OF sound_fold_onmessage [OF s0]] r [OF sound_fold_onmessage [OF s0']]
    by (simp add: disconnect_def Let_def split: option.splits await_result.splits)
qed

lemma sound_connectFailed: "sound s \<Longrightarrow> sound (connectFailed env e s)"
proof -
  assume "sound s"
  then have "sound (s\<lparr>error := e\<rparr>)"
    by (rule sound_same) simp_all
  then show ?thesis
    unfolding connectFailed_def by (rule sound_disconnect)
qed

lemma sound_connectRest: "sound s \<Longrightarrow> sound (connectRest env s)"
proof -
  assume a: "sound s"
  have s1: "sound (s\<lparr>inputAnalyserRef := True\<rparr>)"
    using a by (rule sound_same) simp_all
  have s2: "sound (s\<lparr>inputAnalyserRef := True, micStream := True\<rparr>)"
    using a by (rule sound_same) simp_all
  have s3: "sound (s\<lparr>inputAnalyserRef := True, micStream := True, sessionRef := True\<rparr>)"
    using a by (rule sound_same) simp_all
  show ?thesis
    using s1 s3 sound_connectFailed [OF s1] sound_connectFailed [OF s2]
    by (simp add: connectRest_def Let_def split: await_result.splits call_result.splits)
qed

lemma sound_connect: "sound s \<Longrightarrow> sound (connect env s)"
proof -
  assume a: "sound s"
  have s0: "sound (s\<lparr>error := None\<rparr>)"
    using a by (rule sound_same) simp_all
  have s1: "sound (s\<lparr>error := None, inputContextRef := c\<rparr>)" for c
    using a by (rule sound_same) simp_all
  show ?thesis
    using a s1 sound_connectFailed [OF s0] sound_connectFailed [OF s1] sound_connectRest [OF s1]
    by (simp add: connect_def Let_def split: await_result.splits call_result.splits)
qed

lemma sound_step: "sound s \<Longrightarrow> sound (step e s)"
proof (cases e)
  case (InitAI key)
  assume "sound s"
  then have "sound (s\<lparr>aiRef := key\<rparr>)" "sound (s\<lparr>error := Some (lit ''API Key is missing.'')\<rparr>)"
    by (rule sound_same; simp)+
  then show ?thesis by (simp add: InitAI initAI_def)
next
  case (Connect env)
  assume "sound s"
  then show ?thesis by (simp add: Connect sound_connect)
next
  case OnOpen
  assume "sound s"
  then have "sound (s\<lparr>isConnected := True\<rparr>)"
    "sound (s\<lparr>isConnected := True, sourceNodeRef := Some True, processorNodeRef := Some True\<rparr>)"
    by (rule sound_same; simp)+
  then show ?thesis by (simp add: OnOpen onopen_def Let_def)
next
  case (OnMessage msg)
  assume "sound s"
  then show ?thesis by (simp add: OnMessage sound_onmessage)
next
  case OnClose
  assume "sound s"
  then have "sound (s\<lparr>isConnected := False\<rparr>)"
    by (rule sound_same) simp_all
  then show ?thesis by (simp add: OnClose onclose_def)
next
  case (OnError message env)
  assume "sound s"
  then have "sound (s\<lparr>error := e'\<rparr>)" for e'
    by (rule sound_same) simp_all
  then show ?thesis by (simp add: OnError onerror_def sound_disconnect)
next
  case (Disconnect env)
  assume "sound s"
  then show ?thesis by (simp add: Disconnect sound_disconnect)
next
  case (DownloadTranscript isoTime)
  assume "sound s"
  then show ?thesis by (simp add: DownloadTranscript)
qed

lemma sound_run: "sound s \<Longrightarrow> sound (run es s)"
  unfolding run_def by (induction es arbitrary: s) (simp_all add: sound_step)

lemma sound_initial: "distinctIds w \<Longrightarrow> sound (initial w)"
  by (simp add: sound_def consistent_def freshIds_def distinctIds_def initial_def
      getActive_def buffer_def blank_def)

lemma reachable_sound: "distinctIds w \<Longrightarrow> sound (run es (initial w))"
  by (intro sound_run sound_initial)

lemma reachable_tracking:
  assumes "distinctIds w"
  shows "(getActive r (activeMessageIds (run es (initial w))) = None \<and>
          blank (buffer r (run es (initial w)))) \<or>
         (\<exists>k. tracks r (run es (initial w)) k \<and>
              text_m (messages (run es (initial w)) ! k) = buffer r (run es (initial w)) \<and>
              isPartial (messages (run es (initial w)) ! k))"
  using reachable_sound [OF assms, of es] by (simp add: sound_iff consistent_cases)

lemma distinctIds_example:
  "distinctIds (smap (\<lambda>n. (0, replicate n 0x61)) (fromN 0))"
proof -
  have "generateId (0, replicate m 0x61) \<noteq> generateId (0, replicate n 0x61)" if "m \<noteq> n" for m n
  proof
    assume "generateId (0, replicate m 0x61) = generateId (0, replicate n 0x61)"
    then have "length (generateId (0, replicate m 0x61)) = length (generateId (0, replicate n 0x61))"
      by simp
    with that show False
      by (simp add: generateId_def)
  qed
  then show ?thesis
    by (simp add: distinctIds_def)
qed


section \<open>Tracking across the two branches of turn completion\<close>

lemma keeps_nth:
  assumes "keeps old new" "k < length old"
  shows "id_m (new ! k) = id_m (old ! k) \<and> role (new ! k) = role (old ! k)"
proof -
  have "map identity (take (length old) new) ! k = map identity old ! k"
    using assms(1) by (simp add: keeps_def)
  moreover have "k < length (take (length old) new)"
    using assms by (simp add: keeps_def)
  ultimately have "identity (new ! k) = identity (old ! k)"
    using assms(2) by simp
  then show ?thesis
    by (simp add: identity_def)
qed

lemma findIndex_keeps:
  assumes "findIndex (\<lambda>m. id_m m = i) old = Some k" "keeps old new"
  shows "findIndex (\<lambda>m. id_m m = i) new = Some k"
proof -
  have "map identity (take (length old) new) = map identity old"
    using assms(2) by (simp add: keeps_def)
  then have "map fst (map identity (take (length old) new)) = map fst (map identity old)"
    by simp
  then have ids: "map id_m (take (length old) new) = map id_m old"
    by (simp add: identity_def comp_def)
  have "findIndex (\<lambda>x. x = i) (map id_m old) = Some k"
    using assms(1) by (simp add: findIndex_map [of id_m])
  then have "findIndex (\<lambda>x. x = i) (map id_m (take (length old) new) @ map id_m (drop (length old) new)) = Some k"
    unfolding ids by (rule findIndex_append_present)
  moreover have "map id_m (take (length old) new) @ map id_m (drop (length old) new) = map id_m new"
    by (simp only: map_append [symmetric] append_take_drop_id)
  ultimately have "findIndex (\<lambda>x. x = i) (map id_m new) = Some k"
    by simp
  then show ?thesis
    by (simp add: findIndex_map [of id_m])
qed

lemma tracks_keeps:
  assumes "tracks r s k" "keeps (messages s) (messages s')"
    "getActive r (activeMessageIds s') = getActive r (activeMessageIds s)"
  shows "tracks r s' k"
proof -
  from tracksD [OF assms(1)] obtain i where i: "getActive r (activeMessageIds s) = Some i"
    "truthy i" "findIndex (\<lambda>m. id_m m = i) (messages s) = Some k"
    "role (messages s ! k) = r" "k < length (messages s)"
    by blast
  have "findIndex (\<lambda>m. id_m m = i) (messages s') = Some k"
    using i(3) assms(2) by (rule findIndex_keeps)
  moreover have "role (messages s' ! k) = r"
    using keeps_nth [OF assms(2) i(5)] i(4) by simp
  ultimately show ?thesis
    using i(1,2) by (simp add: tracks_def assms(3))
qed

lemma tracks_onTurnComplete_other:
  assumes "tracks r' s k" "r' \<noteq> r"
  shows "tracks r' (onTurnComplete r s) k \<and> buffer r' (onTurnComplete r s) = buffer r' s"
proof -
  have a: "getActive r' (activeMessageIds (onTurnComplete r s)) = getActive r' (activeMessageIds s)"
    using assms(2)
    by (simp add: onTurnComplete_def active_setBuffer getActive_other_updateMessage)
  have b: "buffer r' (onTurnComplete r s) = buffer r' s"
    using assms(2) by (simp add: onTurnComplete_def buffer_setBuffer buffer_updateMessage)
  show ?thesis
    using tracks_keeps [OF assms(1) keeps_onTurnComplete a] b by simp
qed

lemma buffer_onTurnComplete_other:
  "r' \<noteq> r \<Longrightarrow> buffer r' (onTurnComplete r s) = buffer r' s"
  by (simp add: onTurnComplete_def buffer_setBuffer buffer_updateMessage)

section \<open>Identifiers\<close>

text \<open>The decimal digits determine the number, so ids built from different clock values
  and the same suffix differ: the sample clock never gives the same id twice.\<close>

lemma unat_digit: "d < 10 \<Longrightarrow> unat (digit d) = 48 + d"
  by (simp only: digit_def unat_of_nat) simp

lemma decimal_value: "foldl (\<lambda>a c. 10 * a + (unat c - 48)) 0 (decimal n) = n"
proof (induction n rule: decimal.induct)
  case (1 n)
  show ?case
  proof (cases "n < 10")
    case True
    then show ?thesis
      by (subst decimal.simps) (simp add: unat_digit)
  next
    case False
    have "decimal n = decimal (n div 10) @ [digit (n mod 10)]"
      using False by (subst decimal.simps) simp
    then show ?thesis
      using 1 [OF False] by (simp add: unat_digit)
  qed
qed

lemma decimal_inj: "decimal m = decimal n \<Longrightarrow> m = n"
  using decimal_value [of m] decimal_value [of n] by simp

lemma generateId_inj:
  "0 \<le> a \<Longrightarrow> 0 \<le> b \<Longrightarrow> generateId (a, x) = generateId (b, x) \<Longrightarrow> a = b"
  using decimal_inj [of "nat a" "nat b"] by (simp add: generateId_def toString_def)

lemma snth_exampleWorld: "exampleWorld !! n = (int (42 + n), lit ''x'')"
  by (simp add: exampleWorld_def)

lemma distinctIds_exampleWorld: "distinctIds exampleWorld"
proof -
  have "generateId (int (42 + m), lit ''x'') \<noteq> generateId (int (42 + n), lit ''x'')"
    if "m \<noteq> n" for m n
    using that generateId_inj [of "int (42 + m)" "int (42 + n)" "lit ''x''"] by auto
  then show ?thesis
    unfolding distinctIds_def snth_exampleWorld by blast
qed

lemma reachable_tracked:
  assumes "distinctIds w" "\<not> blank (buffer r (run es (initial w)))"
  shows "\<exists>k. tracks r (run es (initial w)) k"
  using reachable_tracking [OF assms(1), of r es] assms(2) by blast

lemma reachable_fresh:
  assumes "distinctIds w"
  shows "generateId (shd (entropy (run es (initial w))))
           \<notin> id_m ` set (messages (run es (initial w)))"
  using reachable_sound [OF assms, of es] by (simp add: sound_def freshIds_head)

lemma reachable_interrupted:
  assumes "distinctIds w"
  shows "(\<exists>k. tracks Model (run es (initial w)) k) \<or>
     getActive Model (activeMessageIds (run es (initial w))) = None \<and>
     generateId (shd (entropy (run es (initial w))))
       \<notin> id_m ` set (messages (run es (initial w)))"
  using reachable_tracking [OF assms, of Model es] reachable_fresh [OF assms, of es] by blast


section \<open>Interruption\<close>

text \<open>
  Claim C5. When the interruption signal arrives while the model's buffer is not empty
  and the model's tracker holds the id of its message in progress (the message at
  index \<open>k\<close>), that message is rewritten as final with the accumulated text followed
  by the marker, space and three full stops; the list is otherwise unchanged, the
  model's buffer is cleared and its tracker reset; the user's buffer and tracker stay.
  When the model tracks no message (its buffer is blank then), the message with that
  text is created, final from the start, and the buffer is cleared as well. In every
  state reached from the initial one, ids being distinct, one of the two cases applies.
\<close>

theorem interruption_finalizes:
  "(currentOutputTextRef s \<noteq> [] \<and> tracks Model s k \<longrightarrow>
      onmessage interruptedMsg s = onInterrupted s \<and>
      k < length (messages s) \<and> role (messages s ! k) = Model \<and>
      messages (onInterrupted s) = (messages s)[k := (messages s ! k)
         \<lparr>text_m := currentOutputTextRef s @ lit '' ...'', isPartial := False\<rparr>] \<and>
      currentOutputTextRef (onInterrupted s) = [] \<and>
      model (activeMessageIds (onInterrupted s)) = None \<and>
      currentInputTextRef (onInterrupted s) = currentInputTextRef s \<and>
      user (activeMessageIds (onInterrupted s)) = user (activeMessageIds s)) \<and>
   (currentOutputTextRef s \<noteq> [] \<and> getActive Model (activeMessageIds s) = None \<and>
    generateId (shd (entropy s)) \<notin> id_m ` set (messages s) \<longrightarrow>
      messages (onInterrupted s) = messages s @ [\<lparr>id_m = generateId (shd (entropy s)),
         role = Model, text_m = currentOutputTextRef s @ lit '' ...'', isPartial = False\<rparr>] \<and>
      currentOutputTextRef (onInterrupted s) = [] \<and>
      model (activeMessageIds (onInterrupted s)) = None) \<and>
   (distinctIds w \<longrightarrow>
      (\<exists>j. tracks Model (run es (initial w)) j) \<or>
      (getActive Model (activeMessageIds (run es (initial w))) = None \<and>
       generateId (shd (entropy (run es (initial w))))
         \<notin> id_m ` set (messages (run es (initial w)))))"
  using onInterrupted_tracked [of s k] onInterrupted_untracked [of s]
    reachable_interrupted [of w es]
  by blast

theorem interruption_finalizes_witness:
  "distinctIds exampleWorld \<and>
   generateId (shd (entropy exampleSession)) \<notin> id_m ` set (messages exampleSession) \<and>
   currentOutputTextRef exampleReply \<noteq> [] \<and> tracks Model exampleReply 1 \<and>
   messages (onmessage interruptedMsg exampleReply)
     = [\<lparr>id_m = lit ''42x'', role = User, text_m = lit ''hel'', isPartial = True\<rparr>,
        \<lparr>id_m = lit ''43x'', role = Model, text_m = lit ''yes ...'', isPartial = False\<rparr>] \<and>
   currentOutputTextRef (onmessage interruptedMsg exampleReply) = [] \<and>
   model (activeMessageIds (onmessage interruptedMsg exampleReply)) = None \<and>
   (currentOutputTextRef (deliver Model [[0x20]] (initial exampleWorld)) \<noteq> [] \<and>
    getActive Model (activeMessageIds (deliver Model [[0x20]] (initial exampleWorld))) = None \<and>
    generateId (shd (entropy (deliver Model [[0x20]] (initial exampleWorld))))
      \<notin> id_m ` set (messages (deliver Model [[0x20]] (initial exampleWorld)))) \<and>
   messages (onInterrupted (deliver Model [[0x20]] (initial exampleWorld)))
     = [\<lparr>id_m = lit ''42x'', role = Model, text_m = lit ''  ...'', isPartial = False\<rparr>]"
proof -
  have h1: "currentOutputTextRef exampleReply \<noteq> []"
    by (simp add: exampleReply_eq lit_def)
  have h2: "tracks Model exampleReply 1"
    by (simp add: exampleReply_eq tracks_def getActive_def truthy_def lit_def)
  have m: "(messages exampleReply)[1 := (messages exampleReply ! 1)
        \<lparr>text_m := currentOutputTextRef exampleReply @ lit '' ...'', isPartial := False\<rparr>]
     = [\<lparr>id_m = lit ''42x'', role = User, text_m = lit ''hel'', isPartial = True\<rparr>,
        \<lparr>id_m = lit ''43x'', role = Model, text_m = lit ''yes ...'', isPartial = False\<rparr>]"
    by (simp add: exampleReply_eq lit_def)
  note t = interruption_finalizes [of exampleReply 1 exampleWorld exampleEvents,
      folded exampleSession_def]
  have d: "distinctIds exampleWorld"
    by (rule distinctIds_exampleWorld)
  have "\<not> tracks Model exampleSession j" for j
    by (simp add: exampleSession_eq tracks_def getActive_def)
  with t d have f: "generateId (shd (entropy exampleSession)) \<notin> id_m ` set (messages exampleSession)"
    by blast
  from t h1 h2 have e: "onmessage interruptedMsg exampleReply = onInterrupted exampleReply"
    by blast
  from t h1 h2 have "messages (onInterrupted exampleReply) = (messages exampleReply)[1 :=
      (messages exampleReply ! 1)
        \<lparr>text_m := currentOutputTextRef exampleReply @ lit '' ...'', isPartial := False\<rparr>]"
    by blast
  then have r: "messages (onInterrupted exampleReply)
     = [\<lparr>id_m = lit ''42x'', role = User, text_m = lit ''hel'', isPartial = True\<rparr>,
        \<lparr>id_m = lit ''43x'', role = Model, text_m = lit ''yes ...'', isPartial = False\<rparr>]"
    using m by (rule trans)
  from t h1 h2 have b: "currentOutputTextRef (onInterrupted exampleReply) = []"
    by blast
  from t h1 h2 have a: "model (activeMessageIds (onInterrupted exampleReply)) = None"
    by blast
  have h3: "currentOutputTextRef (deliver Model [[0x20]] (initial exampleWorld)) \<noteq> [] \<and>
      getActive Model (activeMessageIds (deliver Model [[0x20]] (initial exampleWorld))) = None \<and>
      generateId (shd (entropy (deliver Model [[0x20]] (initial exampleWorld))))
        \<notin> id_m ` set (messages (deliver Model [[0x20]] (initial exampleWorld)))"
    by (simp add: eval_defs)
  have m3: "messages (deliver Model [[0x20]] (initial exampleWorld)) @
      [\<lparr>id_m = generateId (shd (entropy (deliver Model [[0x20]] (initial exampleWorld)))),
        role = Model,
        text_m = currentOutputTextRef (deliver Model [[0x20]] (initial exampleWorld)) @ lit '' ...'',
        isPartial = False\<rparr>]
     = [\<lparr>id_m = lit ''42x'', role = Model, text_m = lit ''  ...'', isPartial = False\<rparr>]"
    by (simp add: eval_defs shd_exampleWorld)
  note t' = interruption_finalizes [of "deliver Model [[0x20]] (initial exampleWorld)" 0]
  from t' h3 have "messages (onInterrupted (deliver Model [[0x20]] (initial exampleWorld)))
     = messages (deliver Model [[0x20]] (initial exampleWorld)) @
      [\<lparr>id_m = generateId (shd (entropy (deliver Model [[0x20]] (initial exampleWorld)))),
        role = Model,
        text_m = currentOutputTextRef (deliver Model [[0x20]] (initial exampleWorld)) @ lit '' ...'',
        isPartial = False\<rparr>]"
    by blast
  then have r3: "messages (onInterrupted (deliver Model [[0x20]] (initial exampleWorld)))
     = [\<lparr>id_m = lit ''42x'', role = Model, text_m = lit ''  ...'', isPartial = False\<rparr>]"
    using m3 by (rule trans)
  show ?thesis
    unfolding e using d f h1 h2 r b a h3 r3 by blast
qed


section \<open>Turn completion\<close>

text \<open>
  Claim C3, as amended. When a turn-complete signal reaches the branch of a role whose
  buffer is not empty and whose tracker holds the id of its message in progress (the
  message at index \<open>k\<close>, of that role), exactly that message is rewritten as final with
  the buffer as its text, no other message is created or changed, and afterwards the
  role's buffer is empty and its tracker none. With a blank buffer and no tracked
  message, no message is created or finalized; the buffer is cleared all the same.
  The handler runs the branch of the user, then that of the model: the first leaves
  the buffer of the model as it is, and the message the model tracks stays tracked.
  In every state reached from the initial one, ids being distinct, a role whose buffer
  is not blank does track a message.
\<close>

theorem turn_complete_finalizes:
  "(buffer r s \<noteq> [] \<and> tracks r s k \<longrightarrow>
      k < length (messages s) \<and> role (messages s ! k) = r \<and>
      messages (onTurnComplete r s)
        = (messages s)[k := (messages s ! k)\<lparr>text_m := buffer r s, isPartial := False\<rparr>] \<and>
      buffer r (onTurnComplete r s) = [] \<and>
      getActive r (activeMessageIds (onTurnComplete r s)) = None) \<and>
   (blank (buffer r s) \<and> getActive r (activeMessageIds s) = None \<longrightarrow>
      messages (onTurnComplete r s) = messages s \<and>
      buffer r (onTurnComplete r s) = [] \<and>
      getActive r (activeMessageIds (onTurnComplete r s)) = None) \<and>
   onmessage turnCompleteMsg s = onTurnComplete Model (onTurnComplete User s) \<and>
   buffer Model (onTurnComplete User s) = buffer Model s \<and>
   (tracks Model s k \<longrightarrow> tracks Model (onTurnComplete User s) k) \<and>
   (distinctIds w \<and> \<not> blank (buffer r (run es (initial w))) \<longrightarrow>
      (\<exists>j. tracks r (run es (initial w)) j))"
  using onTurnComplete_cases [of r s k] onmessage_turnCompleteMsg [of s]
    buffer_onTurnComplete_other [of Model User s]
    tracks_onTurnComplete_other [of Model s k User]
    reachable_tracked [of w r es]
  by (simp only: role.distinct simp_thms) blast

theorem turn_complete_finalizes_witness:
  "distinctIds exampleWorld \<and> \<not> blank (buffer User exampleSession) \<and>
   (\<exists>j. tracks User exampleSession j) \<and>
   buffer User exampleSession \<noteq> [] \<and> tracks User exampleSession 0 \<and>
   messages (onTurnComplete User exampleSession)
     = [\<lparr>id_m = lit ''42x'', role = User, text_m = lit ''hel'', isPartial = False\<rparr>] \<and>
   buffer User (onTurnComplete User exampleSession) = [] \<and>
   getActive User (activeMessageIds (onTurnComplete User exampleSession)) = None \<and>
   blank (buffer User (deliver User [[0x20]] (initial exampleWorld))) \<and>
   getActive User (activeMessageIds (deliver User [[0x20]] (initial exampleWorld))) = None \<and>
   messages (onTurnComplete User (deliver User [[0x20]] (initial exampleWorld))) = [] \<and>
   buffer User (onTurnComplete User (deliver User [[0x20]] (initial exampleWorld))) = []"
proof -
  let ?b = "deliver User [[0x20]] (initial exampleWorld)"
  have h1: "buffer User exampleSession \<noteq> [] \<and> tracks User exampleSession 0"
    by (simp add: exampleSession_eq tracks_def getActive_def truthy_def buffer_def lit_def)
  have m: "(messages exampleSession)[0 := (messages exampleSession ! 0)
        \<lparr>text_m := buffer User exampleSession, isPartial := False\<rparr>]
     = [\<lparr>id_m = lit ''42x'', role = User, text_m = lit ''hel'', isPartial = False\<rparr>]"
    by (simp add: exampleSession_eq buffer_def)
  have h2: "blank (buffer User ?b) \<and> getActive User (activeMessageIds ?b) = None"
    by (simp add: eval_defs)
  have m2: "messages ?b = []"
    by (simp add: eval_defs)
  note t1 = turn_complete_finalizes [of User exampleSession 0 exampleWorld exampleEvents,
      folded exampleSession_def]
  note t2 = turn_complete_finalizes [of User ?b 0]
  have d: "distinctIds exampleWorld"
    by (rule distinctIds_exampleWorld)
  have nb: "\<not> blank (buffer User exampleSession)"
    by (simp add: exampleSession_eq buffer_def blank_def lit_def isWhiteSpace_def)
  from t1 d nb have ex: "\<exists>j. tracks User exampleSession j"
    by blast
  from t1 h1 have "messages (onTurnComplete User exampleSession)
      = (messages exampleSession)[0 := (messages exampleSession ! 0)
           \<lparr>text_m := buffer User exampleSession, isPartial := False\<rparr>]"
    by blast
  then have r1: "messages (onTurnComplete User exampleSession)
     = [\<lparr>id_m = lit ''42x'', role = User, text_m = lit ''hel'', isPartial = False\<rparr>]"
    using m by (rule trans)
  from t1 h1 have r2: "buffer User (onTurnComplete User exampleSession) = [] \<and>
      getActive User (activeMessageIds (onTurnComplete User exampleSession)) = None"
    by blast
  from t2 h2 have "messages (onTurnComplete User ?b) = messages ?b"
    by blast
  then have r3: "messages (onTurnComplete User ?b) = []"
    using m2 by (rule trans)
  from t2 h2 have r4: "buffer User (onTurnComplete User ?b) = []"
    by blast
  show ?thesis
    using d nb ex h1 h2 r1 r2 r3 r4 by blast
qed


section \<open>Fragments of one turn\<close>

text \<open>
  Claim C2, as amended. At the start of a turn (the role's buffer empty, its tracker
  none), for fragments whose concatenation is not blank and a generated id that no
  message has yet, delivering the fragments appends exactly one message to the list:
  a message of that role, in progress, whose text is the concatenation of the fragments
  in their order of arrival, repeated fragments included. It is the only message in
  progress of that role when the list had none before. In every state reached from
  the initial one, ids being distinct, the id generated next is one that no message
  has yet.
\<close>

theorem fragments_concatenate:
  "(getActive r (activeMessageIds s) = None \<and> buffer r s = [] \<and>
    \<not> blank (concat frags) \<and>
    generateId (shd (entropy s)) \<notin> id_m ` set (messages s) \<longrightarrow>
      messages (deliver r frags s)
        = messages s @ [\<lparr>id_m = generateId (shd (entropy s)), role = r,
            text_m = concat frags, isPartial = True\<rparr>] \<and>
      buffer r (deliver r frags s) = concat frags \<and>
      getActive r (activeMessageIds (deliver r frags s)) = Some (generateId (shd (entropy s))) \<and>
      ((\<forall>m\<in>set (messages s). role m = r \<longrightarrow> \<not> isPartial m) \<longrightarrow>
         filter (\<lambda>m. role m = r \<and> isPartial m) (messages (deliver r frags s))
           = [\<lparr>id_m = generateId (shd (entropy s)), role = r,
                text_m = concat frags, isPartial = True\<rparr>])) \<and>
   (distinctIds w \<longrightarrow>
      generateId (shd (entropy (run es (initial w))))
        \<notin> id_m ` set (messages (run es (initial w))))"
  using deliver_turn_start [of r s frags] reachable_fresh [of w es] by blast

theorem fragments_concatenate_witness:
  "distinctIds exampleWorld \<and>
   getActive Model (activeMessageIds exampleSession) = None \<and>
   buffer Model exampleSession = [] \<and>
   \<not> blank (concat [lit ''ye'', lit ''ye'', lit ''s'']) \<and>
   generateId (shd (entropy exampleSession)) \<notin> id_m ` set (messages exampleSession) \<and>
   messages (deliver Model [lit ''ye'', lit ''ye'', lit ''s''] exampleSession)
     = [\<lparr>id_m = lit ''42x'', role = User, text_m = lit ''hel'', isPartial = True\<rparr>,
        \<lparr>id_m = lit ''43x'', role = Model, text_m = lit ''yeyes'', isPartial = True\<rparr>] \<and>
   buffer Model (deliver Model [lit ''ye'', lit ''ye'', lit ''s''] exampleSession) = lit ''yeyes'' \<and>
   filter (\<lambda>m. role m = Model \<and> isPartial m)
       (messages (deliver Model [lit ''ye'', lit ''ye'', lit ''s''] exampleSession))
     = [\<lparr>id_m = lit ''43x'', role = Model, text_m = lit ''yeyes'', isPartial = True\<rparr>]"
proof -
  let ?frags = "[lit ''ye'', lit ''ye'', lit ''s'']"
  let ?new = "\<lparr>id_m = generateId (shd (entropy exampleSession)), role = Model,
     text_m = concat ?frags, isPartial = True\<rparr>"
  have h1: "getActive Model (activeMessageIds exampleSession) = None"
    by (simp add: exampleSession_eq getActive_def)
  have h2: "buffer Model exampleSession = []"
    by (simp add: exampleSession_eq buffer_def)
  have h3: "\<not> blank (concat ?frags)"
    by (simp add: blank_def lit_def isWhiteSpace_def)
  have g: "generateId (shd (entropy exampleSession)) = lit ''43x''"
    by (simp add: entropy_exampleSession generateId_def toString_def digit_def lit_def)
  note t = fragments_concatenate [of Model exampleSession ?frags exampleWorld exampleEvents,
      folded exampleSession_def]
  have d: "distinctIds exampleWorld"
    by (rule distinctIds_exampleWorld)
  from t d have h4: "generateId (shd (entropy exampleSession)) \<notin> id_m ` set (messages exampleSession)"
    by blast
  have h5: "\<forall>m\<in>set (messages exampleSession). role m = Model \<longrightarrow> \<not> isPartial m"
    by (simp add: exampleSession_eq)
  have n: "?new = \<lparr>id_m = lit ''43x'', role = Model, text_m = lit ''yeyes'', isPartial = True\<rparr>"
    unfolding g by (simp add: lit_def)
  have m: "messages exampleSession @ [?new]
      = [\<lparr>id_m = lit ''42x'', role = User, text_m = lit ''hel'', isPartial = True\<rparr>,
         \<lparr>id_m = lit ''43x'', role = Model, text_m = lit ''yeyes'', isPartial = True\<rparr>]"
    unfolding n by (simp add: exampleSession_eq)
  have c: "concat ?frags = lit ''yeyes''"
    by (simp add: lit_def)
  from t h1 h2 h3 h4
  have "messages (deliver Model ?frags exampleSession) = messages exampleSession @ [?new]"
    by blast
  then have r1: "messages (deliver Model ?frags exampleSession)
      = [\<lparr>id_m = lit ''42x'', role = User, text_m = lit ''hel'', isPartial = True\<rparr>,
         \<lparr>id_m = lit ''43x'', role = Model, text_m = lit ''yeyes'', isPartial = True\<rparr>]"
    using m by (rule trans)
  from t h1 h2 h3 h4 have "buffer Model (deliver Model ?frags exampleSession) = concat ?frags"
    by blast
  then have r2: "buffer Model (deliver Model ?frags exampleSession) = lit ''yeyes''"
    using c by (rule trans)
  from t h1 h2 h3 h4 h5 have "filter (\<lambda>m. role m = Model \<and> isPartial m)
       (messages (deliver Model ?frags exampleSession)) = [?new]"
    by blast
  then have r3: "filter (\<lambda>m. role m = Model \<and> isPartial m)
       (messages (deliver Model ?frags exampleSession))
     = [\<lparr>id_m = lit ''43x'', role = Model, text_m = lit ''yeyes'', isPartial = True\<rparr>]"
    unfolding n .
  show ?thesis
    using d h1 h2 h3 h4 r1 r2 r3 by blast
qed

end
